theory Spec2Isabelle
  imports Main "HOL-Library.Sublist"
begin

section \<open>Python values, exceptions and strings\<close>

text \<open>
  The development embeds the LLM bulk-extraction core of the repository: the two copies of
  the response sanitizer and of the asynchronous caller
  (\<^verbatim>\<open>acaps_protection_indicators/generate_predictions.py\<close> and
  \<^verbatim>\<open>ohchr/summaries_generation_utils/openai_async.py\<close>) and the two consumers that
  join the decoded answers with their evidence
  (\<^verbatim>\<open>process_df.py\<close>, \<^verbatim>\<open>prepare_final_results.py\<close>).

  A Python \<^verbatim>\<open>str\<close> is a \<^typ>\<open>string\<close>; one \<^typ>\<open>char\<close> stands for one code point below
  U+0100. A raised exception is the \<open>Inl\<close> branch of a sum.
\<close>

datatype error =
    AttributeError
  | IndexError
  | KeyError
  | TypeError
  | ValueError
  | UnboundLocalError
  | ClientError
  | ContentTypeError
  | ExceptionGroup "error list"

text \<open>
  The values that \<^verbatim>\<open>ast.literal_eval\<close> and \<^verbatim>\<open>json.loads\<close> hand back. A dictionary keeps
  its items in insertion order. Floating-point values are not part of the model.
\<close>

datatype pyval =
    PNone
  | PBool bool
  | PInt int
  | PStr string
  | PList "pyval list"
  | PDict "(pyval \<times> pyval) list"

text \<open>
  \<^verbatim>\<open>str.isspace\<close>, which is also the class \<^verbatim>\<open>\s\<close> of a \<^verbatim>\<open>str\<close> pattern: below U+0100 the
  white space characters are TAB..CR, FS..US, SPACE, NEL and NBSP.
\<close>

definition is_space :: "char \<Rightarrow> bool" where
  "is_space c = (of_char c \<in> {9, 10, 11, 12, 13, 28, 29, 30, 31, 32, 133, 160 :: nat})"

text \<open>\<^verbatim>\<open>s.replace(old, new)\<close>: the occurrences of \<open>old\<close> are found from the left and do not
  overlap; an empty \<open>old\<close> matches before every character and at the end.\<close>

function replace_nonempty :: "string \<Rightarrow> string \<Rightarrow> string \<Rightarrow> string" where
  "replace_nonempty old new [] = []"
| "replace_nonempty old new (c # cs) =
     (if old \<noteq> [] \<and> prefix old (c # cs)
      then new @ replace_nonempty old new (drop (length old) (c # cs))
      else c # replace_nonempty old new cs)"
  by pat_completeness auto
termination
  by (relation "measure (\<lambda>(old, new, s). length s)") (auto simp: neq_Nil_conv)

definition str_replace :: "string \<Rightarrow> string \<Rightarrow> string \<Rightarrow> string" where
  "str_replace old new s =
     (if old = [] then new @ concat (map (\<lambda>c. c # new) s) else replace_nonempty old new s)"

text \<open>\<^verbatim>\<open>s.strip()\<close>\<close>

definition str_strip :: "string \<Rightarrow> string" where
  "str_strip s = rev (dropWhile is_space (rev (dropWhile is_space s)))"

text \<open>\<^verbatim>\<open>s.find(c)\<close> for a one-character needle: the first index, or \<open>-1\<close>.\<close>

definition str_find :: "char \<Rightarrow> string \<Rightarrow> int" where
  "str_find c s = (if c \<in> set s then int (length (takeWhile (\<lambda>x. x \<noteq> c) s)) else - 1)"

section \<open>The regular expressions of the sanitizers\<close>

text \<open>\<^verbatim>\<open>re.sub(r"\s+", " ", s)\<close>: every maximal run of white space becomes one space.\<close>

function collapse_ws :: "string \<Rightarrow> string" where
  "collapse_ws [] = []"
| "collapse_ws (c # cs) =
     (if is_space c then CHR '' '' # collapse_ws (dropWhile is_space cs)
      else c # collapse_ws cs)"
  by pat_completeness auto
termination
  by (relation "measure length") (auto simp: length_dropWhile_le less_Suc_eq_le)

text \<open>
  \<^verbatim>\<open>re.search(r"\{([^\}]*)\}", string)\<close> and its square-bracket twin: the leftmost opening
  character that is followed, with no closing character in between, by a closing one;
  the match ends at that first closing character. \<open>None\<close> is Python's \<^verbatim>\<open>None\<close>.
\<close>

fun re_search_span :: "char \<Rightarrow> char \<Rightarrow> string \<Rightarrow> string option" where
  "re_search_span l r [] = None"
| "re_search_span l r (c # cs) =
     (if c = l \<and> r \<in> set cs then Some (c # takeWhile (\<lambda>x. x \<noteq> r) cs @ [r])
      else re_search_span l r cs)"

text \<open>\<^verbatim>\<open>m.group(0)\<close> on the result of \<^verbatim>\<open>re.search\<close>: \<^verbatim>\<open>None\<close> has no attribute \<^verbatim>\<open>group\<close>.\<close>

definition group0 :: "string option \<Rightarrow> error + string" where
  "group0 m = (case m of None \<Rightarrow> Inl AttributeError | Some g \<Rightarrow> Inr g)"

section \<open>The sanitizers\<close>

text \<open>\<^verbatim>\<open>_extract_and_evaluate_first\<close>, the same text in both modules.\<close>

definition extract_and_evaluate_first :: "string \<Rightarrow> error + string" where
  "extract_and_evaluate_first string =
     (let index_curly = str_find CHR ''{'' string;
          index_square = str_find CHR ''['' string
      in if (0 \<le> index_curly \<and> index_curly < index_square)
            \<or> (index_curly \<noteq> - 1 \<and> index_square = - 1)
         then group0 (re_search_span CHR ''{'' CHR ''}'' string)
         else if (0 \<le> index_square \<and> index_square < index_curly)
            \<or> (index_square \<noteq> - 1 \<and> index_curly = - 1)
         then group0 (re_search_span CHR ''['' CHR '']'' string)
         else Inr string)"

text \<open>
  \<^verbatim>\<open>_add_comma_between_quotes\<close>: \<^verbatim>\<open>re.sub\<close> with the pattern \<^verbatim>\<open>"(\s*)"\<close>. A match is a double
  quote, the white space after it, and a double quote; it is rewritten to quote, the same
  white space, quote, comma, and the scan goes on after the match.
\<close>

function add_comma_between_quotes :: "string \<Rightarrow> string" where
  "add_comma_between_quotes [] = []"
| "add_comma_between_quotes (c # cs) =
     (if c = CHR 0x22
      then (case dropWhile is_space cs of
              [] \<Rightarrow> c # add_comma_between_quotes cs
            | q # rest \<Rightarrow>
                if q = CHR 0x22
                then CHR 0x22 # takeWhile is_space cs @ [CHR 0x22, CHR '',''] @
                     add_comma_between_quotes rest
                else c # add_comma_between_quotes cs)
      else c # add_comma_between_quotes cs)"
  by pat_completeness auto
termination
proof (relation "measure length", goal_cases)
  case 1
  show ?case by simp
next
  case (2 c cs)
  show ?case by simp
next
  case (3 c cs q rest)
  have "length (dropWhile is_space cs) \<le> length cs"
    by (rule length_dropWhile_le)
  with 3 show ?case by simp
next
  case (4 c cs q rest)
  show ?case by simp
next
  case (5 c cs)
  show ?case by simp
qed

text \<open>\<^verbatim>\<open>_sanitize_string\<close>: the characters below U+0020 are removed, twice over.\<close>

definition sanitize_string :: "string \<Rightarrow> string" where
  "sanitize_string v =
     filter (\<lambda>ch. 32 \<le> (of_char ch :: nat)) (filter (\<lambda>ch. \<not> (of_char ch :: nat) \<le> 31) v)"

text \<open>
  The chain of \<^verbatim>\<open>str.replace\<close> calls that opens the ACAPS \<^verbatim>\<open>_postprocess_json_string\<close>,
  in three groups: the code-fence markers and the tag \<^verbatim>\<open>json\<close>; newline, tab and carriage
  return; the four characters \<^verbatim>\<open>\xa0\<close>.
\<close>

definition strip_fences :: "string \<Rightarrow> string" where
  "strip_fences s = str_replace ''json'' [] (str_replace ''```'' [] s)"

definition flatten_newlines :: "string \<Rightarrow> string" where
  "flatten_newlines s =
     str_replace [CHR ''}'', CHR 0x0A] ''}''
       (str_replace [CHR 0x0D] '' ''
         (str_replace [CHR 0x09] '' ''
           (str_replace [CHR 0x0A] '' ''
             (str_replace [CHR 0x0A, CHR ''{''] ''{'' s))))"

definition normalize_nbsp :: "string \<Rightarrow> string" where
  "normalize_nbsp s =
     str_replace [CHR 0x5C, CHR ''x'', CHR ''a'', CHR ''0'']
                 [CHR 0x5C, CHR ''u'', CHR ''0'', CHR ''0'', CHR ''A'', CHR ''0''] s"

definition acaps_replaces :: "string \<Rightarrow> string" where
  "acaps_replaces s = normalize_nbsp (flatten_newlines (strip_fences s))"

text \<open>\<^verbatim>\<open>re.sub(r"\s+", " ", s).strip()\<close>\<close>

definition collapse_spaces :: "string \<Rightarrow> string" where
  "collapse_spaces s = str_strip (collapse_ws s)"

text \<open>\<^verbatim>\<open>_postprocess_json_string\<close> of \<^verbatim>\<open>generate_predictions.py\<close>.\<close>

definition acaps_postprocess_json_string :: "string \<Rightarrow> error + string" where
  "acaps_postprocess_json_string s =
     extract_and_evaluate_first
       (sanitize_string
         (add_comma_between_quotes
           (collapse_spaces (acaps_replaces s))))"

text \<open>
  \<^verbatim>\<open>re.sub(r",(\s*[}\]])", r"\1", s)\<close>, the first line of the OHCHR
  \<^verbatim>\<open>_postprocess_json_string\<close>: a comma that is followed, after optional white space, by a
  closing brace or bracket is dropped; the white space and the closing character stay.
\<close>

function drop_trailing_commas :: "string \<Rightarrow> string" where
  "drop_trailing_commas [] = []"
| "drop_trailing_commas (c # cs) =
     (if c = CHR '',''
      then (case dropWhile is_space cs of
              [] \<Rightarrow> c # drop_trailing_commas cs
            | q # rest \<Rightarrow>
                if q = CHR ''}'' \<or> q = CHR '']''
                then takeWhile is_space cs @ [q] @ drop_trailing_commas rest
                else c # drop_trailing_commas cs)
      else c # drop_trailing_commas cs)"
  by pat_completeness auto
termination
proof (relation "measure length", goal_cases)
  case (3 c cs q rest)
  have "length (dropWhile is_space cs) \<le> length cs"
    by (rule length_dropWhile_le)
  with 3 show ?case by simp
qed simp_all

definition ohchr_replaces :: "string \<Rightarrow> string" where
  "ohchr_replaces s =
     normalize_nbsp
      (str_replace [CHR 0x09] '' ''
        (str_replace [CHR 0x0A] '' ''
          (str_replace [CHR ''}'', CHR 0x0A] ''}''
            (str_replace [CHR 0x0A, CHR ''{''] ''{''
              (strip_fences s)))))"

text \<open>\<^verbatim>\<open>_postprocess_json_string\<close> of \<^verbatim>\<open>openai_async.py\<close>.\<close>

definition ohchr_postprocess_json_string :: "string \<Rightarrow> error + string" where
  "ohchr_postprocess_json_string s =
     extract_and_evaluate_first (str_strip (ohchr_replaces (drop_trailing_commas s)))"

section \<open>Operations on Python values\<close>

text \<open>\<^verbatim>\<open>xs[i]\<close> on a list: a negative index counts from the end, an index outside
  \<open>-len .. len - 1\<close> raises.\<close>

definition list_getitem :: "'a list \<Rightarrow> int \<Rightarrow> error + 'a" where
  "list_getitem xs i =
     (let n = int (length xs); j = (if i < 0 then i + n else i)
      in if 0 \<le> j \<and> j < n then Inr (xs ! nat j) else Inl IndexError)"

text \<open>\<^verbatim>\<open>v[k]\<close> on a decoded value. As dictionary keys \<^verbatim>\<open>True\<close> and \<^verbatim>\<open>1\<close> are the same key,
  and so are \<^verbatim>\<open>False\<close> and \<^verbatim>\<open>0\<close>; a list or a dictionary is not hashable.\<close>

fun dict_key :: "pyval \<Rightarrow> pyval" where
  "dict_key (PBool b) = PInt (if b then 1 else 0)"
| "dict_key k = k"

fun py_getitem :: "pyval \<Rightarrow> pyval \<Rightarrow> error + pyval" where
  "py_getitem (PDict kvs) (PList k) = Inl TypeError"
| "py_getitem (PDict kvs) (PDict k) = Inl TypeError"
| "py_getitem (PDict kvs) k =
     (case map_of (map (\<lambda>(k', v). (dict_key k', v)) kvs) (dict_key k) of
        None \<Rightarrow> Inl KeyError
      | Some v \<Rightarrow> Inr v)"
| "py_getitem (PList xs) (PInt i) = list_getitem xs i"
| "py_getitem (PList xs) (PBool b) = list_getitem xs (if b then 1 else 0)"
| "py_getitem (PStr s) (PInt i) = map_sum id (\<lambda>c. PStr [c]) (list_getitem s i)"
| "py_getitem (PStr s) (PBool b) =
     map_sum id (\<lambda>c. PStr [c]) (list_getitem s (if b then 1 else 0))"
| "py_getitem v k = Inl TypeError"

text \<open>\<^verbatim>\<open>len(v)\<close> and the items that \<^verbatim>\<open>for x in v\<close> visits.\<close>

fun py_len :: "pyval \<Rightarrow> error + nat" where
  "py_len (PStr s) = Inr (length s)"
| "py_len (PList xs) = Inr (length xs)"
| "py_len (PDict kvs) = Inr (length kvs)"
| "py_len v = Inl TypeError"

fun py_iter :: "pyval \<Rightarrow> error + pyval list" where
  "py_iter (PStr s) = Inr (map (\<lambda>c. PStr [c]) s)"
| "py_iter (PList xs) = Inr xs"
| "py_iter (PDict kvs) = Inr (map fst kvs)"
| "py_iter v = Inl TypeError"

text \<open>
  \<^verbatim>\<open>int(s)\<close> on a string: surrounding white space is ignored, a sign may come first, and
  the rest is decimal digits, where single underscores may separate digits. More than
  4300 digits are refused (the default of \<^verbatim>\<open>sys.set_int_max_str_digits\<close>). The white space
  of \<^verbatim>\<open>int\<close> is narrower than \<^verbatim>\<open>str.isspace\<close>: the ASCII characters are kept as they are and
  only TAB..CR and SPACE are skipped, so FS..US are refused; NEL and NBSP are turned into
  spaces first.
\<close>

definition is_digit :: "char \<Rightarrow> bool" where
  "is_digit c = (48 \<le> (of_char c :: nat) \<and> (of_char c :: nat) \<le> 57)"

fun digits_ok :: "bool \<Rightarrow> string \<Rightarrow> bool" where
  "digits_ok after_digit [] = after_digit"
| "digits_ok after_digit (c # cs) =
     (if is_digit c then digits_ok True cs
      else c = CHR ''_'' \<and> after_digit \<and> digits_ok False cs)"

definition digits_value :: "string \<Rightarrow> int" where
  "digits_value ds = foldl (\<lambda>acc c. 10 * acc + (of_char c - 48)) 0 (filter is_digit ds)"

definition is_int_space :: "char \<Rightarrow> bool" where
  "is_int_space c = (of_char c \<in> {9, 10, 11, 12, 13, 32, 133, 160 :: nat})"

definition int_of_str :: "string \<Rightarrow> error + int" where
  "int_of_str s =
     (let t = rev (dropWhile is_int_space (rev (dropWhile is_int_space s)));
          neg = (t \<noteq> [] \<and> hd t = CHR ''-'');
          body = (if t \<noteq> [] \<and> (hd t = CHR ''-'' \<or> hd t = CHR ''+'') then tl t else t)
      in if digits_ok False body \<and> length (filter is_digit body) \<le> 4300
         then Inr (if neg then - digits_value body else digits_value body)
         else Inl ValueError)"

fun py_int :: "pyval \<Rightarrow> error + int" where
  "py_int (PInt i) = Inr i"
| "py_int (PBool b) = Inr (if b then 1 else 0)"
| "py_int (PStr s) = int_of_str s"
| "py_int v = Inl TypeError"

section \<open>Decoding a sanitized answer\<close>

text \<open>
  \<^verbatim>\<open>ast.literal_eval\<close> and \<^verbatim>\<open>json.loads\<close> belong to the Python library, not to the
  repository: the decoder takes them as parameters, \<open>None\<close> standing for any exception
  they raise (both calls sit under \<^verbatim>\<open>except Exception\<close>). The record keeps, besides the
  value, the parser calls that were made and the \<^verbatim>\<open>logger.error\<close> calls.
\<close>

datatype parser = Literal_eval | Json_loads

datatype log_entry =
    GPT_running_failed error pyval
  | Formatting_failed string

record decoded =
  dvalue :: pyval
  attempts :: "(parser \<times> string) list"
  dlog :: "log_entry list"

text \<open>
  The nested \<^verbatim>\<open>try\<close> that closes \<^verbatim>\<open>call_chatgpt_async\<close> in both modules; \<open>dflt\<close> is
  \<^verbatim>\<open>{}\<close> in the ACAPS module and \<^verbatim>\<open>[]\<close> in the OHCHR one.
\<close>

definition decode ::
  "(string \<Rightarrow> pyval option) \<Rightarrow> (string \<Rightarrow> pyval option) \<Rightarrow> pyval \<Rightarrow> string \<Rightarrow> decoded" where
  "decode literal_eval json_loads dflt output_text =
     (case literal_eval output_text of
        Some v \<Rightarrow> \<lparr>dvalue = v, attempts = [(Literal_eval, output_text)], dlog = []\<rparr>
      | None \<Rightarrow>
          (case json_loads output_text of
             Some v \<Rightarrow>
               \<lparr>dvalue = v,
                attempts = [(Literal_eval, output_text), (Json_loads, output_text)],
                dlog = []\<rparr>
           | None \<Rightarrow>
               \<lparr>dvalue = dflt,
                attempts = [(Literal_eval, output_text), (Json_loads, output_text)],
                dlog = [Formatting_failed output_text]\<rparr>))"

section \<open>One completion call\<close>

text \<open>
  What the network gives one request: \<^verbatim>\<open>session.post\<close> raises, or \<^verbatim>\<open>response.json()\<close>
  raises (the body is not JSON), or the body is parsed into \<^verbatim>\<open>clean_response\<close>. A
  non-2xx status does not raise by itself: its JSON body is parsed like any other.
\<close>

datatype http_result = Post_raises | Json_raises | Body pyval

text \<open>\<^verbatim>\<open>clean_response["choices"][0]["message"]["content"]\<close>\<close>

definition response_content :: "pyval \<Rightarrow> error + pyval" where
  "response_content clean_response =
     (case py_getitem clean_response (PStr ''choices'') of
        Inl e \<Rightarrow> Inl e
      | Inr choices \<Rightarrow>
          (case py_getitem choices (PInt 0) of
             Inl e \<Rightarrow> Inl e
           | Inr choice \<Rightarrow>
               (case py_getitem choice (PStr ''message'') of
                  Inl e \<Rightarrow> Inl e
                | Inr message \<Rightarrow> py_getitem message (PStr ''content''))))"

record call_result =
  outcome :: "error + pyval"
  parser_calls :: "(parser \<times> string) list"
  log :: "log_entry list"

text \<open>
  The body of \<^verbatim>\<open>call_chatgpt_async\<close> in \<^verbatim>\<open>generate_predictions.py\<close>, from the request to
  the \<^verbatim>\<open>return\<close>. The request and \<^verbatim>\<open>response.json()\<close> stand outside every \<^verbatim>\<open>try\<close>, and so
  does \<^verbatim>\<open>_postprocess_json_string\<close>, whose first step is \<^verbatim>\<open>s.replace\<close>: a content that is
  not a string has no such attribute.
\<close>

definition acaps_call_chatgpt_async ::
  "(string \<Rightarrow> pyval option) \<Rightarrow> (string \<Rightarrow> pyval option) \<Rightarrow> http_result \<Rightarrow> call_result" where
  "acaps_call_chatgpt_async literal_eval json_loads http =
     (case http of
        Post_raises \<Rightarrow> \<lparr>outcome = Inl ClientError, parser_calls = [], log = []\<rparr>
      | Json_raises \<Rightarrow> \<lparr>outcome = Inl ContentTypeError, parser_calls = [], log = []\<rparr>
      | Body clean_response \<Rightarrow>
          (let (output_text, lg) =
                 (case response_content clean_response of
                    Inl e \<Rightarrow> (PStr ''{}'', [GPT_running_failed e clean_response])
                  | Inr t \<Rightarrow> (t, []))
           in case output_text of
                PStr s \<Rightarrow>
                  (case acaps_postprocess_json_string s of
                     Inl e \<Rightarrow> \<lparr>outcome = Inl e, parser_calls = [], log = lg\<rparr>
                   | Inr text \<Rightarrow>
                       (let d = decode literal_eval json_loads (PDict []) text
                        in \<lparr>outcome = Inr (dvalue d), parser_calls = attempts d,
                            log = lg @ dlog d\<rparr>))
              | _ \<Rightarrow> \<lparr>outcome = Inl AttributeError, parser_calls = [], log = lg\<rparr>))"

datatype response_type = Extraction | Summary

text \<open>
  The body of \<^verbatim>\<open>call_chatgpt_async\<close> in \<^verbatim>\<open>openai_async.py\<close>. Here the request is inside
  the \<^verbatim>\<open>try\<close>; the handler formats \<^verbatim>\<open>clean_response\<close> into its message, a local name that
  is bound only once \<^verbatim>\<open>response.json()\<close> has returned. In extraction mode the first step
  of \<^verbatim>\<open>_postprocess_json_string\<close> is \<^verbatim>\<open>re.sub\<close>, which wants a string.
\<close>

definition ohchr_call_chatgpt_async ::
  "(string \<Rightarrow> pyval option) \<Rightarrow> (string \<Rightarrow> pyval option) \<Rightarrow> response_type \<Rightarrow> http_result
     \<Rightarrow> call_result" where
  "ohchr_call_chatgpt_async literal_eval json_loads rtype http =
     (case http of
        Post_raises \<Rightarrow> \<lparr>outcome = Inl UnboundLocalError, parser_calls = [], log = []\<rparr>
      | Json_raises \<Rightarrow> \<lparr>outcome = Inl UnboundLocalError, parser_calls = [], log = []\<rparr>
      | Body clean_response \<Rightarrow>
          (let (output_text, lg) =
                 (case response_content clean_response of
                    Inl e \<Rightarrow>
                      (if rtype = Extraction then PStr ''[]'' else PStr [],
                       [GPT_running_failed e clean_response])
                  | Inr t \<Rightarrow> (t, []))
           in if rtype = Extraction
              then (case output_text of
                      PStr s \<Rightarrow>
                        (case ohchr_postprocess_json_string s of
                           Inl e \<Rightarrow> \<lparr>outcome = Inl e, parser_calls = [], log = lg\<rparr>
                         | Inr text \<Rightarrow>
                             (let d = decode literal_eval json_loads (PList []) text
                              in \<lparr>outcome = Inr (dvalue d), parser_calls = attempts d,
                                  log = lg @ dlog d\<rparr>))
                    | _ \<Rightarrow> \<lparr>outcome = Inl TypeError, parser_calls = [], log = lg\<rparr>)
              else \<lparr>outcome = Inr output_text, parser_calls = [], log = lg\<rparr>))"

section \<open>A fragment of the two library parsers\<close>

text \<open>
  To run the decoder on concrete answers, the two library parsers are modelled on the
  texts built from braces, brackets, colons, commas, spaces, double-quoted strings without
  backslash or control character, and unsigned decimal integers. The verdict
  \<open>Unmodelled\<close> is given for every other text (single quotes, escapes, signs, floats,
  keywords, comments, triple quotes, sets, tuples, deep nesting): nothing is claimed about
  those. On the fragment the two parsers differ in three points: Python joins adjacent
  string literals, allows a comma before a closing bracket, and allows integer keys.
\<close>

datatype 'a verdict = Value 'a | Raises | Unmodelled

datatype token =
    T_lbrace | T_rbrace | T_lbrack | T_rbrack | T_colon | T_comma
  | T_str string
  | T_int int

definition push_token :: "token \<Rightarrow> token list verdict \<Rightarrow> token list verdict" where
  "push_token t r = (case r of Value ts \<Rightarrow> Value (t # ts) | Raises \<Rightarrow> Raises | Unmodelled \<Rightarrow> Unmodelled)"

function tokenize :: "string \<Rightarrow> token list verdict" where
  "tokenize [] = Value []"
| "tokenize (c # cs) =
     (if c = CHR '' '' then tokenize cs
      else if c = CHR ''{'' then push_token T_lbrace (tokenize cs)
      else if c = CHR ''}'' then push_token T_rbrace (tokenize cs)
      else if c = CHR ''['' then push_token T_lbrack (tokenize cs)
      else if c = CHR '']'' then push_token T_rbrack (tokenize cs)
      else if c = CHR '':'' then push_token T_colon (tokenize cs)
      else if c = CHR '','' then push_token T_comma (tokenize cs)
      else if c = CHR 0x22 then
        (let body = takeWhile (\<lambda>x. x \<noteq> CHR 0x22) cs;
             rest = dropWhile (\<lambda>x. x \<noteq> CHR 0x22) cs
         in if rest = [] then Raises
            else if list_ex (\<lambda>x. x = CHR 0x5C \<or> (of_char x :: nat) < 32) body then Unmodelled
            else if body = [] \<and> take 1 (tl rest) = [CHR 0x22] then Unmodelled
            else push_token (T_str body) (tokenize (tl rest)))
      else if is_digit c then
        (let ds = c # takeWhile is_digit cs
         in if (c = CHR ''0'' \<and> 1 < length ds) \<or> 18 < length ds then Unmodelled
            else push_token (T_int (digits_value ds)) (tokenize (dropWhile is_digit cs)))
      else Unmodelled)"
  by pat_completeness auto
termination
proof (relation "measure length", goal_cases)
  case (9 c cs body rest)
  have "length (tl (dropWhile (\<lambda>x. x \<noteq> CHR 0x22) cs)) \<le> length cs"
    using length_dropWhile_le [of "\<lambda>x. x \<noteq> CHR 0x22" cs] by simp
  with 9 show ?case by simp
next
  case (10 c cs ds)
  have "length (dropWhile is_digit cs) \<le> length cs"
    by (rule length_dropWhile_le)
  then show ?case by simp
qed simp_all

datatype lang = Python | Json

text \<open>
  The parser is a pushdown machine over the tokens. The stack holds the open containers,
  innermost first; the phase says whether a value is awaited (and whether the innermost
  container may be closed right here) or has just been read.
\<close>

datatype ctx =
    In_list "pyval list"
  | In_dict "(pyval \<times> pyval) list"
  | In_dict_value "(pyval \<times> pyval) list" pyval

datatype phase = Expect bool | Have pyval

fun dict_put :: "(pyval \<times> pyval) list \<Rightarrow> pyval \<Rightarrow> pyval \<Rightarrow> (pyval \<times> pyval) list" where
  "dict_put [] k v = [(k, v)]"
| "dict_put ((k', v') # kvs) k v =
     (if k' = k then (k', v) # kvs else (k', v') # dict_put kvs k v)"

definition open_ctx :: "ctx \<Rightarrow> ctx list \<Rightarrow> (ctx list \<times> phase) verdict" where
  "open_ctx c stk = (if 20 \<le> length stk then Unmodelled else Value (c # stk, Expect True))"

definition expect_step :: "lang \<Rightarrow> token \<Rightarrow> ctx list \<Rightarrow> bool \<Rightarrow> (ctx list \<times> phase) verdict" where
  "expect_step l t stk closable =
     (case t of
        T_str s \<Rightarrow> Value (stk, Have (PStr s))
      | T_int n \<Rightarrow> Value (stk, Have (PInt n))
      | T_lbrack \<Rightarrow> open_ctx (In_list []) stk
      | T_lbrace \<Rightarrow> open_ctx (In_dict []) stk
      | T_rbrack \<Rightarrow>
          (case stk of
             In_list xs # stk' \<Rightarrow> if closable then Value (stk', Have (PList (rev xs))) else Raises
           | _ \<Rightarrow> Raises)
      | T_rbrace \<Rightarrow>
          (case stk of
             In_dict kvs # stk' \<Rightarrow> if closable then Value (stk', Have (PDict kvs)) else Raises
           | _ \<Rightarrow> Raises)
      | T_colon \<Rightarrow> Raises
      | T_comma \<Rightarrow> Raises)"

definition have_step :: "lang \<Rightarrow> token \<Rightarrow> ctx list \<Rightarrow> pyval \<Rightarrow> (ctx list \<times> phase) verdict" where
  "have_step l t stk v =
     (case t of
        T_str s \<Rightarrow>
          (case v of
             PStr s0 \<Rightarrow> if l = Python then Value (stk, Have (PStr (s0 @ s))) else Raises
           | _ \<Rightarrow> Raises)
      | T_int n \<Rightarrow> Raises
      | T_lbrack \<Rightarrow> Raises
      | T_lbrace \<Rightarrow> Raises
      | T_comma \<Rightarrow>
          (case stk of
             [] \<Rightarrow> if l = Python then Unmodelled else Raises
           | In_list xs # stk' \<Rightarrow> Value (In_list (v # xs) # stk', Expect (l = Python))
           | In_dict kvs # stk' \<Rightarrow> if l = Python then Unmodelled else Raises
           | In_dict_value kvs k # stk' \<Rightarrow>
               Value (In_dict (dict_put kvs k v) # stk', Expect (l = Python)))
      | T_colon \<Rightarrow>
          (case stk of
             In_dict kvs # stk' \<Rightarrow>
               (case v of
                  PStr s \<Rightarrow> Value (In_dict_value kvs v # stk', Expect False)
                | PInt n \<Rightarrow>
                    if l = Python then Value (In_dict_value kvs v # stk', Expect False)
                    else Raises
                | _ \<Rightarrow> Raises)
           | _ \<Rightarrow> Raises)
      | T_rbrack \<Rightarrow>
          (case stk of
             In_list xs # stk' \<Rightarrow> Value (stk', Have (PList (rev (v # xs))))
           | _ \<Rightarrow> Raises)
      | T_rbrace \<Rightarrow>
          (case stk of
             In_dict_value kvs k # stk' \<Rightarrow> Value (stk', Have (PDict (dict_put kvs k v)))
           | In_dict kvs # stk' \<Rightarrow> if l = Python then Unmodelled else Raises
           | _ \<Rightarrow> Raises))"

definition pstep :: "lang \<Rightarrow> token \<Rightarrow> ctx list \<times> phase \<Rightarrow> (ctx list \<times> phase) verdict" where
  "pstep l t st =
     (case snd st of
        Expect closable \<Rightarrow> expect_step l t (fst st) closable
      | Have v \<Rightarrow> have_step l t (fst st) v)"

fun prun :: "lang \<Rightarrow> token list \<Rightarrow> ctx list \<times> phase \<Rightarrow> pyval verdict" where
  "prun l [] st = (case st of ([], Have v) \<Rightarrow> Value v | _ \<Rightarrow> Raises)"
| "prun l (t # ts) st =
     (case pstep l t st of
        Value st' \<Rightarrow> prun l ts st'
      | Raises \<Rightarrow> Raises
      | Unmodelled \<Rightarrow> Unmodelled)"

definition parse_fragment :: "lang \<Rightarrow> string \<Rightarrow> pyval verdict" where
  "parse_fragment l s =
     (case tokenize s of
        Value ts \<Rightarrow> prun l ts ([], Expect False)
      | Raises \<Rightarrow> Raises
      | Unmodelled \<Rightarrow> Unmodelled)"

text \<open>The fragment as a parameter of the decoder; it is meant for modelled texts only.\<close>

definition as_parser :: "(string \<Rightarrow> pyval verdict) \<Rightarrow> string \<Rightarrow> pyval option" where
  "as_parser p s = (case p s of Value v \<Rightarrow> Some v | Raises \<Rightarrow> None | Unmodelled \<Rightarrow> None)"

section \<open>The bulk runner\<close>

text \<open>
  \<^verbatim>\<open>call_chatgpt_bulk\<close> creates one task per message inside an \<^verbatim>\<open>asyncio.TaskGroup\<close>, all
  sharing one \<^verbatim>\<open>asyncio.Semaphore(rate_limit)\<close>, and awaits \<^verbatim>\<open>asyncio.gather(*tasks)\<close>. The
  event loop interleaves the tasks at their \<^verbatim>\<open>await\<close>s; the model is a transition system
  whose events are the three things that can happen to task \<open>i\<close>:
  \<^item> \<open>Acquire i\<close>: the task enters \<^verbatim>\<open>async with semaphore\<close> (a slot is free) and sends its
    request;
  \<^item> \<open>Respond i\<close>: the network answers; the task runs the rest of \<^verbatim>\<open>call_chatgpt_async\<close>,
    which has no further \<^verbatim>\<open>await\<close>, leaves the \<^verbatim>\<open>async with\<close> and ends with a value or an
    exception;
  \<^item> \<open>Cancel i\<close>: some task has ended with an exception and the task group cancels task
    \<open>i\<close>; a slot it holds is released by the \<^verbatim>\<open>async with\<close>.
  Any order of events that the guards allow is a possible run.
\<close>

datatype task = Pending | Dispatched | Done "error + pyval" | Cancelled

record bulk_state =
  sem :: nat
  tasks :: "task list"

datatype event = Acquire nat | Respond nat | Cancel nat

definition bulk_init :: "nat \<Rightarrow> nat \<Rightarrow> bulk_state" where
  "bulk_init rate_limit n = \<lparr>sem = rate_limit, tasks = replicate n Pending\<rparr>"

definition failed :: "task \<Rightarrow> bool" where
  "failed t = (case t of Done (Inl e) \<Rightarrow> True | _ \<Rightarrow> False)"

fun fire :: "(nat \<Rightarrow> error + pyval) \<Rightarrow> event \<Rightarrow> bulk_state \<Rightarrow> bulk_state option" where
  "fire call (Acquire i) s =
     (if i < length (tasks s) \<and> tasks s ! i = Pending \<and> 0 < sem s
      then Some \<lparr>sem = sem s - 1, tasks = (tasks s)[i := Dispatched]\<rparr>
      else None)"
| "fire call (Respond i) s =
     (if i < length (tasks s) \<and> tasks s ! i = Dispatched
      then Some \<lparr>sem = sem s + 1, tasks = (tasks s)[i := Done (call i)]\<rparr>
      else None)"
| "fire call (Cancel i) s =
     (if i < length (tasks s) \<and> list_ex failed (tasks s)
      then (if tasks s ! i = Pending
            then Some \<lparr>sem = sem s, tasks = (tasks s)[i := Cancelled]\<rparr>
            else if tasks s ! i = Dispatched
            then Some \<lparr>sem = sem s + 1, tasks = (tasks s)[i := Cancelled]\<rparr>
            else None)
      else None)"

fun run :: "(nat \<Rightarrow> error + pyval) \<Rightarrow> event list \<Rightarrow> bulk_state \<Rightarrow> bulk_state option" where
  "run call [] s = Some s"
| "run call (e # es) s = (case fire call e s of None \<Rightarrow> None | Some s' \<Rightarrow> run call es s')"

inductive reachable :: "(nat \<Rightarrow> error + pyval) \<Rightarrow> nat \<Rightarrow> nat \<Rightarrow> bulk_state \<Rightarrow> bool"
  for call :: "nat \<Rightarrow> error + pyval" and rate_limit :: nat and n :: nat where
  start: "reachable call rate_limit n (bulk_init rate_limit n)"
| step: "reachable call rate_limit n s \<Longrightarrow> fire call e s = Some s'
         \<Longrightarrow> reachable call rate_limit n s'"

text \<open>The number of requests in flight: the tasks between \<open>Acquire\<close> and the end.\<close>

definition in_flight :: "bulk_state \<Rightarrow> nat" where
  "in_flight s = length (filter (\<lambda>t. t = Dispatched) (tasks s))"

definition finished :: "bulk_state \<Rightarrow> bool" where
  "finished s = list_all (\<lambda>t. t \<noteq> Pending \<and> t \<noteq> Dispatched) (tasks s)"

text \<open>
  What \<^verbatim>\<open>call_chatgpt_bulk\<close> hands to its caller once every task has ended: the list that
  \<^verbatim>\<open>gather\<close> builds, one result per task in the order of its arguments, or the exception
  group of the task group. The model lists in the group the exception of every failed
  task once, in task order; the library may list the first of them a second time, which
  no statement below depends on.
\<close>

fun task_errors :: "task list \<Rightarrow> error list" where
  "task_errors [] = []"
| "task_errors (Done (Inl e) # ts) = e # task_errors ts"
| "task_errors (t # ts) = task_errors ts"

fun gather :: "task list \<Rightarrow> pyval list option" where
  "gather [] = Some []"
| "gather (Done (Inr v) # ts) = (case gather ts of None \<Rightarrow> None | Some vs \<Rightarrow> Some (v # vs))"
| "gather (t # ts) = None"

definition bulk_return :: "bulk_state \<Rightarrow> (error + pyval list) option" where
  "bulk_return s =
     (if finished s
      then (case gather (tasks s) of
              Some responses \<Rightarrow> Some (Inr responses)
            | None \<Rightarrow> Some (Inl (ExceptionGroup (task_errors (tasks s)))))
      else None)"

text \<open>
  The two runners. \<open>net i m\<close> is what the network does with the request of position \<open>i\<close>
  carrying message \<open>m\<close>; \<open>evs\<close> is the schedule. The result is \<open>None\<close> when \<open>evs\<close> is not a
  complete run of the batch.
\<close>

definition acaps_task ::
  "(string \<Rightarrow> pyval option) \<Rightarrow> (string \<Rightarrow> pyval option) \<Rightarrow> (nat \<Rightarrow> 'm \<Rightarrow> http_result)
     \<Rightarrow> 'm list \<Rightarrow> nat \<Rightarrow> error + pyval" where
  "acaps_task literal_eval json_loads net messages i =
     outcome (acaps_call_chatgpt_async literal_eval json_loads (net i (messages ! i)))"

definition ohchr_task ::
  "(string \<Rightarrow> pyval option) \<Rightarrow> (string \<Rightarrow> pyval option) \<Rightarrow> response_type
     \<Rightarrow> (nat \<Rightarrow> 'm \<Rightarrow> http_result) \<Rightarrow> 'm list \<Rightarrow> nat \<Rightarrow> error + pyval" where
  "ohchr_task literal_eval json_loads rtype net messages i =
     outcome (ohchr_call_chatgpt_async literal_eval json_loads rtype (net i (messages ! i)))"

definition call_chatgpt_bulk ::
  "(nat \<Rightarrow> error + pyval) \<Rightarrow> nat \<Rightarrow> nat \<Rightarrow> event list \<Rightarrow> (error + pyval list) option" where
  "call_chatgpt_bulk call n rate_limit evs =
     (case run call evs (bulk_init rate_limit n) of
        None \<Rightarrow> None
      | Some s \<Rightarrow> bulk_return s)"

definition acaps_call_chatgpt_bulk ::
  "(string \<Rightarrow> pyval option) \<Rightarrow> (string \<Rightarrow> pyval option) \<Rightarrow> (nat \<Rightarrow> 'm \<Rightarrow> http_result)
     \<Rightarrow> 'm list \<Rightarrow> nat \<Rightarrow> event list \<Rightarrow> (error + pyval list) option" where
  "acaps_call_chatgpt_bulk literal_eval json_loads net messages rate_limit evs =
     call_chatgpt_bulk (acaps_task literal_eval json_loads net messages)
       (length messages) rate_limit evs"

definition ohchr_call_chatgpt_bulk ::
  "(string \<Rightarrow> pyval option) \<Rightarrow> (string \<Rightarrow> pyval option) \<Rightarrow> (nat \<Rightarrow> 'm \<Rightarrow> http_result)
     \<Rightarrow> 'm list \<Rightarrow> response_type \<Rightarrow> nat \<Rightarrow> event list \<Rightarrow> (error + pyval list) option" where
  "ohchr_call_chatgpt_bulk literal_eval json_loads net messages rtype rate_limit evs =
     call_chatgpt_bulk (ohchr_task literal_eval json_loads rtype net messages)
       (length messages) rate_limit evs"

section \<open>Joining the answers with their evidence\<close>

definition bnd :: "error + 'a \<Rightarrow> ('a \<Rightarrow> error + 'b) \<Rightarrow> error + 'b" where
  "bnd r f = (case r of Inl e \<Rightarrow> Inl e | Inr v \<Rightarrow> f v)"

text \<open>
  The list comprehension of \<^verbatim>\<open>_get_final_results\<close> and the inner loop of
  \<^verbatim>\<open>_create_indicator_wise_relevant_entries_df\<close>: every reference is turned into an index
  by \<open>conv\<close> and looked up in the evidence list. The first exception ends the loop.
\<close>

fun resolve_refs :: "(pyval \<Rightarrow> error + int) \<Rightarrow> 'e list \<Rightarrow> pyval list \<Rightarrow> error + 'e list" where
  "resolve_refs conv es [] = Inr []"
| "resolve_refs conv es (r # rs) =
     bnd (conv r) (\<lambda>i.
     bnd (list_getitem es i) (\<lambda>x.
     bnd (resolve_refs conv es rs) (\<lambda>xs. Inr (x # xs))))"

text \<open>A list subscript must be an integer (\<^verbatim>\<open>bool\<close> is a subclass of \<^verbatim>\<open>int\<close>).\<close>

fun list_index :: "pyval \<Rightarrow> error + int" where
  "list_index (PInt i) = Inr i"
| "list_index (PBool b) = Inr (if b then 1 else 0)"
| "list_index v = Inl TypeError"

record 'e df_row =
  country :: string
  breakdown_column :: string
  value_col :: string
  last_date :: string
  entries :: "'e list"

text \<open>A row of the frame that \<^verbatim>\<open>_get_final_results\<close> builds. The cell \<^verbatim>\<open>Evidence\<close> holds a
  list when the row is appended in the loop, and one item or \<^verbatim>\<open>NaN\<close> after \<^verbatim>\<open>explode\<close>.\<close>

record 'ev result_row =
  Country :: string
  Breakdown_Column :: string
  Value_col :: string
  Last_Date :: string
  Generated_Text :: pyval
  Evidence :: 'ev

text \<open>The loop of \<^verbatim>\<open>_get_final_results\<close> (\<^verbatim>\<open>process_df.py\<close>), which builds the list
  \<^verbatim>\<open>postprocessed_results\<close>; \<open>i\<close> is the counter of \<^verbatim>\<open>enumerate\<close>.\<close>

fun postprocessed_results ::
  "'e df_row list \<Rightarrow> nat \<Rightarrow> pyval list \<Rightarrow> error + 'e list result_row list" where
  "postprocessed_results df i [] = Inr []"
| "postprocessed_results df i (one_analytical_statement # rest) =
     bnd (py_len one_analytical_statement) (\<lambda>n.
       if 0 < n
       then bnd (if i < length df then Inr (df ! i) else Inl IndexError) (\<lambda>original_entry.
            bnd (py_getitem one_analytical_statement (PStr ''Text'')) (\<lambda>text.
            bnd (py_getitem one_analytical_statement (PStr ''ID'')) (\<lambda>ids.
            bnd (py_iter ids) (\<lambda>id_list.
            bnd (resolve_refs py_int (entries original_entry) id_list) (\<lambda>relevant.
            bnd (postprocessed_results df (Suc i) rest) (\<lambda>rows.
              Inr (\<lparr>Country = country original_entry,
                    Breakdown_Column = breakdown_column original_entry,
                    Value_col = value_col original_entry,
                    Last_Date = last_date original_entry,
                    Generated_Text = text,
                    Evidence = relevant\<rparr> # rows)))))))
       else postprocessed_results df (Suc i) rest)"

text \<open>An evidence item, as \<^verbatim>\<open>_prepare_inference_dataset\<close> builds it: a dictionary with the
  four keys \<^verbatim>\<open>source_name\<close>, \<^verbatim>\<open>source_date\<close>, \<^verbatim>\<open>source_link\<close> and \<^verbatim>\<open>text\<close>.\<close>

record entry =
  source_name :: string
  source_date :: string
  source_link :: string
  entry_text :: string

text \<open>\<^verbatim>\<open>DataFrame.explode("Evidence")\<close>: one row per item of the list; an empty list gives
  one row whose cell is \<^verbatim>\<open>NaN\<close>, here \<open>None\<close>.\<close>

definition explode :: "'e list result_row list \<Rightarrow> 'e option result_row list" where
  "explode rows =
     concat (map (\<lambda>r. map (\<lambda>cell. \<lparr>Country = Country r,
                                   Breakdown_Column = Breakdown_Column r,
                                   Value_col = Value_col r,
                                   Last_Date = Last_Date r,
                                   Generated_Text = Generated_Text r,
                                   Evidence = cell\<rparr>)
                        (if Evidence r = [] then [None] else map Some (Evidence r)))
                 rows)"

record final_row = "entry result_row" +
  Source_Original_Text :: string
  Source_Name :: string
  Source_Date :: string
  Source_Link :: string

text \<open>The four \<^verbatim>\<open>apply\<close> calls on the column \<^verbatim>\<open>Evidence\<close>: \<^verbatim>\<open>x["text"]\<close> on \<^verbatim>\<open>NaN\<close>, a float, is a
  \<^verbatim>\<open>TypeError\<close>.\<close>

definition source_columns :: "entry option result_row \<Rightarrow> error + final_row" where
  "source_columns r =
     (case Evidence r of
        None \<Rightarrow> Inl TypeError
      | Some x \<Rightarrow>
          Inr \<lparr>Country = Country r,
               Breakdown_Column = Breakdown_Column r,
               Value_col = Value_col r,
               Last_Date = Last_Date r,
               Generated_Text = Generated_Text r,
               Evidence = x,
               Source_Original_Text = str_replace [CHR 0x0A] '' '' (entry_text x),
               Source_Name = source_name x,
               Source_Date = source_date x,
               Source_Link = source_link x\<rparr>)"

text \<open>The first exception of a list of results, or all their values.\<close>

fun collect :: "(error + 'a) list \<Rightarrow> error + 'a list" where
  "collect [] = Inr []"
| "collect (r # rs) = bnd r (\<lambda>x. bnd (collect rs) (\<lambda>xs. Inr (x # xs)))"

text \<open>The two closing \<^verbatim>\<open>apply\<close> calls: the value \<^verbatim>\<open>Country Wide\<close> and its breakdown column
  are both relabelled.\<close>

definition general_summary_labels :: "final_row \<Rightarrow> final_row" where
  "general_summary_labels r =
     (let v = (if Value_col r = ''Country Wide'' then ''1 - General Summary'' else Value_col r)
      in r\<lparr>Value_col := v,
           Breakdown_Column := (if v = ''1 - General Summary'' then ''1 - General Summary''
                                else Breakdown_Column r)\<rparr>)"

text \<open>
  \<^verbatim>\<open>_get_final_results\<close> as a whole. A frame built from an empty list has no column
  \<^verbatim>\<open>Evidence\<close>, and \<^verbatim>\<open>explode\<close> raises \<^verbatim>\<open>KeyError\<close>.
\<close>

definition get_final_results :: "entry df_row list \<Rightarrow> pyval list \<Rightarrow> error + final_row list" where
  "get_final_results df final_results =
     bnd (postprocessed_results df 0 final_results) (\<lambda>rows.
       if rows = [] then Inl KeyError
       else bnd (collect (map source_columns (explode rows))) (\<lambda>frame.
              Inr (map general_summary_labels frame)))"

text \<open>The closing loop of \<^verbatim>\<open>_create_indicator_wise_relevant_entries_df\<close>
  (\<^verbatim>\<open>prepare_final_results.py\<close>); a row is its list of sentence groups.\<close>

fun extracted_infos :: "'e list list \<Rightarrow> nat \<Rightarrow> pyval list \<Rightarrow> error + 'e list list" where
  "extracted_infos [] i answers = Inr []"
| "extracted_infos (row # rows) i answers =
     bnd (list_getitem answers (int i)) (\<lambda>answer.
     bnd (py_iter answer) (\<lambda>ids.
     bnd (resolve_refs list_index row ids) (\<lambda>row_extracted_infos.
     bnd (extracted_infos rows (Suc i) answers) (\<lambda>final. Inr (row_extracted_infos # final)))))"

text \<open>Sample data for the concrete runs: the two fragment parsers as decoder parameters,
  an evidence item with a given text, a row of the inference frame, and the envelope of a
  completion whose \<^verbatim>\<open>choices[0].message.content\<close> is \<open>c\<close>.\<close>

definition literal_eval_fragment :: "string \<Rightarrow> pyval option" where
  "literal_eval_fragment = as_parser (parse_fragment Python)"

definition json_loads_fragment :: "string \<Rightarrow> pyval option" where
  "json_loads_fragment = as_parser (parse_fragment Json)"

definition sample_entry :: "string \<Rightarrow> entry" where
  "sample_entry t =
     \<lparr>source_name = ''ACAPS'', source_date = ''2024-05-01'',
      source_link = ''https://www.acaps.org'', entry_text = t\<rparr>"

definition sample_row :: "string \<Rightarrow> string \<Rightarrow> entry list \<Rightarrow> entry df_row" where
  "sample_row column v es =
     \<lparr>country = ''Haiti'', breakdown_column = column, value_col = v,
      last_date = ''2024-05-01'', entries = es\<rparr>"

definition completion :: "pyval \<Rightarrow> http_result" where
  "completion c =
     Body (PDict [(PStr ''choices'',
                   PList [PDict [(PStr ''message'', PDict [(PStr ''content'', c)])]])])"

text \<open>
  Answers all of whose references resolve: every reference is an integer \<open>i\<close> with
  \<open>-n \<le> i < n\<close> for the \<open>n\<close> evidence items of the slot. For the ACAPS joiner the answer is a
  dictionary with the keys \<^verbatim>\<open>Text\<close> and \<^verbatim>\<open>ID\<close> that names at least one reference.
\<close>

definition in_range :: "'e list \<Rightarrow> pyval \<Rightarrow> bool" where
  "in_range es r =
     (case r of PInt i \<Rightarrow> - int (length es) \<le> i \<and> i < int (length es) | _ \<Rightarrow> False)"

definition list_resolves :: "'e list \<Rightarrow> pyval \<Rightarrow> bool" where
  "list_resolves es answer =
     (case answer of PList ids \<Rightarrow> list_all (in_range es) ids | _ \<Rightarrow> False)"

definition statement_resolves :: "'e df_row \<Rightarrow> pyval \<Rightarrow> bool" where
  "statement_resolves row answer =
     (case answer of
        PDict kvs \<Rightarrow>
          (case py_getitem answer (PStr ''Text'') of
             Inl e \<Rightarrow> False
           | Inr gtext \<Rightarrow>
               (case py_getitem answer (PStr ''ID'') of
                  Inl e \<Rightarrow> False
                | Inr ids \<Rightarrow> ids \<noteq> PList [] \<and> list_resolves (entries row) ids))
      | _ \<Rightarrow> False)"

section \<open>Notions used in the proofs\<close>

text \<open>White space in normal form: every white space character is a single space that is
  not followed by another one.\<close>

fun ws_normal :: "string \<Rightarrow> bool" where
  "ws_normal [] = True"
| "ws_normal (c # cs) =
     ((if is_space c then c = CHR '' '' \<and> (cs = [] \<or> \<not> is_space (hd cs)) else True)
      \<and> ws_normal cs)"


text \<open>A measure that every event decreases.\<close>

fun task_weight :: "task \<Rightarrow> nat" where
  "task_weight Pending = 2"
| "task_weight Dispatched = 1"
| "task_weight t = 0"

definition weight :: "bulk_state \<Rightarrow> nat" where
  "weight s = sum_list (map task_weight (tasks s))"

section \<open>Lemmas on the string operations\<close>

lemma set_replace_nonempty: "set (replace_nonempty old new s) \<subseteq> set s \<union> set new"
proof (induction old new s rule: replace_nonempty.induct)
  case (1 old new)
  then show ?case by simp
next
  case (2 old new c cs)
  show ?case
  proof (cases "old \<noteq> [] \<and> prefix old (c # cs)")
    case True
    have "set (drop (length old) (c # cs)) \<subseteq> set (c # cs)" by (rule set_drop_subset)
    with True 2(1) show ?thesis by auto
  next
    case False
    with 2(2) show ?thesis by auto
  qed
qed

lemma replace_nonempty_absent:
  "\<not> sublist old s \<Longrightarrow> replace_nonempty old new s = s"
proof (induction s)
  case Nil
  then show ?case by simp
next
  case (Cons c cs)
  from Cons.prems have np: "\<not> prefix old (c # cs)" and ns: "\<not> sublist old cs"
    by (auto simp: sublist_Cons_right)
  with Cons.IH show ?case by simp
qed

lemma replace_char: "replace_nonempty [c] new s = concat (map (\<lambda>x. if x = c then new else [x]) s)"
  by (induction s) auto

lemma sublist_mem: "sublist old s \<Longrightarrow> c \<in> set old \<Longrightarrow> c \<in> set s"
  by (auto simp: sublist_def)

lemma replace_nonempty_no_char:
  "c \<in> set old \<Longrightarrow> c \<notin> set s \<Longrightarrow> replace_nonempty old new s = s"
  by (rule replace_nonempty_absent) (auto dest: sublist_mem)

lemma flatten_newlines_free:
  "set (flatten_newlines s) \<inter> {CHR 0x0A, CHR 0x09, CHR 0x0D} = {}"
  unfolding flatten_newlines_def str_replace_def
  using set_replace_nonempty [of "[CHR ''}'', CHR 0x0A]" "''}''"]
  by (auto simp: replace_char split: if_splits dest!: set_replace_nonempty [THEN subsetD])

lemma flatten_newlines_fix:
  assumes "set s \<inter> {CHR 0x0A, CHR 0x09, CHR 0x0D} = {}"
  shows "flatten_newlines s = s"
proof -
  from assms have nl: "CHR 0x0A \<notin> set s" and tab: "CHR 0x09 \<notin> set s"
    and cr: "CHR 0x0D \<notin> set s" by auto
  have 1: "replace_nonempty [CHR 0x0A, CHR ''{''] ''{'' s = s"
    using nl by (intro replace_nonempty_no_char [where c = "CHR 0x0A"]) simp_all
  have 2: "replace_nonempty [CHR 0x0A] '' '' s = s"
    using nl by (intro replace_nonempty_no_char [where c = "CHR 0x0A"]) simp_all
  have 3: "replace_nonempty [CHR 0x09] '' '' s = s"
    using tab by (intro replace_nonempty_no_char [where c = "CHR 0x09"]) simp_all
  have 4: "replace_nonempty [CHR 0x0D] '' '' s = s"
    using cr by (intro replace_nonempty_no_char [where c = "CHR 0x0D"]) simp_all
  have 5: "replace_nonempty [CHR ''}'', CHR 0x0A] ''}'' s = s"
    using nl by (intro replace_nonempty_no_char [where c = "CHR 0x0A"]) simp_all
  show ?thesis
    unfolding flatten_newlines_def str_replace_def by (simp add: 1 2 3 4 5)
qed

lemma flatten_newlines_idem: "flatten_newlines (flatten_newlines s) = flatten_newlines s"
  by (rule flatten_newlines_fix) (rule flatten_newlines_free)


lemma replace_hit:
  assumes "old \<noteq> []" and "prefix old s"
  shows "replace_nonempty old new s = new @ replace_nonempty old new (drop (length old) s)"
  using assms by (cases s) auto

lemma replace_miss:
  "\<not> prefix old (c # cs) \<Longrightarrow>
     replace_nonempty old new (c # cs) = c # replace_nonempty old new cs"
  by simp

lemma replace_prefix_back:
  assumes "new \<noteq> []" and "hd new \<notin> set w"
    and "prefix w (replace_nonempty old new s)"
  shows "prefix w s"
  using assms(2,3)
proof (induction w arbitrary: s)
  case Nil
  then show ?case by simp
next
  case (Cons a w)
  from Cons.prems(1) have a: "a \<noteq> hd new" and w: "hd new \<notin> set w" by auto
  show ?case
  proof (cases s)
    case Nil
    with Cons.prems show ?thesis by simp
  next
    case s: (Cons d ds)
    show ?thesis
    proof (cases "old \<noteq> [] \<and> prefix old s")
      case True
      then have "replace_nonempty old new s = new @ replace_nonempty old new (drop (length old) s)"
        by (simp add: replace_hit)
      with Cons.prems(2) assms(1) a show ?thesis
        by (cases new) auto
    next
      case False
      then have "replace_nonempty old new s = d # replace_nonempty old new ds"
        unfolding s by auto
      with Cons.prems(2) have "a = d" and "prefix w (replace_nonempty old new ds)"
        by simp_all
      with Cons.IH [OF w] s show ?thesis by simp
    qed
  qed
qed

lemma replace_absent_after:
  assumes new: "new \<noteq> []" and fresh: "hd new \<notin> set rest"
    and old: "old = hd new # rest"
    and clean: "\<And>X. sublist old (new @ X) \<longleftrightarrow> sublist old X"
  shows "\<not> sublist old (replace_nonempty old new s)"
proof (induction "length s" arbitrary: s rule: less_induct)
  case less
  have old_ne: "old \<noteq> []" using old by simp
  show ?case
  proof (cases s)
    case Nil
    with old_ne show ?thesis by simp
  next
    case (Cons c cs)
    show ?thesis
    proof (cases "prefix old s")
      case True
      have "length (drop (length old) s) < length s"
        using Cons old_ne by simp
      from less [OF this] show ?thesis
        by (simp add: replace_hit [OF old_ne True] clean)
    next
      case False
      have "length cs < length s" using Cons by simp
      from less [OF this] have ih: "\<not> sublist old (replace_nonempty old new cs)" .
      have "\<not> prefix old (c # replace_nonempty old new cs)"
      proof
        assume "prefix old (c # replace_nonempty old new cs)"
        then have "prefix (hd new # rest) (c # replace_nonempty old new cs)"
          by (simp only: old)
        then have c: "c = hd new" and "prefix rest (replace_nonempty old new cs)"
          by simp_all
        from this(2) have "prefix rest cs"
          by (rule replace_prefix_back [OF new fresh])
        with c have "prefix (hd new # rest) (c # cs)" by simp
        then have "prefix old (c # cs)" by (simp only: old)
        with False Cons show False by simp
      qed
      with ih False show ?thesis
        unfolding Cons by (simp add: replace_miss sublist_Cons_right)
    qed
  qed
qed

lemma nbsp_absent_after:
  "\<not> sublist [CHR 0x5C, CHR ''x'', CHR ''a'', CHR ''0'']
      (replace_nonempty [CHR 0x5C, CHR ''x'', CHR ''a'', CHR ''0'']
                 [CHR 0x5C, CHR ''u'', CHR ''0'', CHR ''0'', CHR ''A'', CHR ''0''] s)"
  by (rule replace_absent_after [where rest = "[CHR ''x'', CHR ''a'', CHR ''0'']"])
     (simp_all add: sublist_Cons_right)

lemma normalize_nbsp_idem: "normalize_nbsp (normalize_nbsp s) = normalize_nbsp s"
  unfolding normalize_nbsp_def str_replace_def
  by (simp add: replace_nonempty_absent nbsp_absent_after)

lemma collapse_ws_head:
  "s \<noteq> [] \<Longrightarrow> \<not> is_space (hd s) \<Longrightarrow> collapse_ws s \<noteq> [] \<and> hd (collapse_ws s) = hd s"
  by (cases s) auto

lemma ws_normal_collapse: "ws_normal (collapse_ws s)"
proof (induction s rule: collapse_ws.induct)
  case 1
  show ?case by simp
next
  case (2 c cs)
  show ?case
  proof (cases "is_space c")
    case True
    let ?r = "dropWhile is_space cs"
    have "collapse_ws ?r = [] \<or> \<not> is_space (hd (collapse_ws ?r))"
    proof (cases "?r = []")
      case True
      show ?thesis unfolding True by simp
    next
      case False
      then have "\<not> is_space (hd ?r)" by (rule hd_dropWhile)
      with False collapse_ws_head [of ?r] show ?thesis by simp
    qed
    moreover have "is_space (CHR '' '')" by (simp add: is_space_def)
    ultimately show ?thesis using True 2(1) by simp
  next
    case False
    with 2(2) show ?thesis by simp
  qed
qed

lemma collapse_ws_normal: "ws_normal s \<Longrightarrow> collapse_ws s = s"
proof (induction s)
  case Nil
  show ?case by simp
next
  case (Cons c cs)
  then have ih: "collapse_ws cs = cs" by simp
  show ?case
  proof (cases "is_space c")
    case True
    with Cons.prems have c: "c = CHR '' ''" and h: "cs = [] \<or> \<not> is_space (hd cs)" by simp_all
    from h have "dropWhile is_space cs = cs" by (cases cs) auto
    with True c ih show ?thesis by simp
  next
    case False
    with ih show ?thesis by simp
  qed
qed

lemma ws_normal_append: "ws_normal (xs @ ys) \<Longrightarrow> ws_normal xs \<and> ws_normal ys"
proof (induction xs)
  case Nil
  then show ?case by simp
next
  case (Cons x xs)
  then show ?case by (cases xs) (auto split: if_splits)
qed

lemma str_strip_decomp:
  "\<exists>pre post. s = pre @ str_strip s @ post"
proof -
  let ?u = "dropWhile is_space s"
  have "s = takeWhile is_space s @ ?u" by simp
  moreover have "rev ?u = takeWhile is_space (rev ?u) @ dropWhile is_space (rev ?u)" by simp
  then have "?u = rev (dropWhile is_space (rev ?u)) @ rev (takeWhile is_space (rev ?u))"
    by (metis rev_append rev_rev_ident)
  ultimately have "s = takeWhile is_space s @ str_strip s @ rev (takeWhile is_space (rev ?u))"
    unfolding str_strip_def by simp
  then show ?thesis by blast
qed

lemma ws_normal_strip: "ws_normal s \<Longrightarrow> ws_normal (str_strip s)"
proof -
  assume n: "ws_normal s"
  obtain pre post where "s = pre @ str_strip s @ post" using str_strip_decomp by blast
  with n have "ws_normal (pre @ str_strip s @ post)" by simp
  then show ?thesis using ws_normal_append by blast
qed

lemma dropWhile_fix: "s = [] \<or> \<not> P (hd s) \<Longrightarrow> dropWhile P s = s"
  by (cases s) auto

lemma str_strip_idem: "str_strip (str_strip s) = str_strip s"
proof -
  let ?u = "dropWhile is_space s"
  let ?v = "dropWhile is_space (rev ?u)"
  have w: "str_strip s = rev ?v" by (simp add: str_strip_def)
  have "dropWhile is_space (rev ?v) = rev ?v"
  proof (cases "?v = []")
    case True
    show ?thesis unfolding True by simp
  next
    case False
    have "?u \<noteq> []"
    proof
      assume e: "?u = []"
      have "?v = []" unfolding e by simp
      with False show False by simp
    qed
    then have hu: "\<not> is_space (hd ?u)" by (rule hd_dropWhile)
    have "rev ?u = takeWhile is_space (rev ?u) @ ?v" by simp
    then have "?u = rev ?v @ rev (takeWhile is_space (rev ?u))"
      by (metis rev_append rev_rev_ident)
    with False have "hd (rev ?v) = hd ?u"
      by (metis hd_append2 rev_is_Nil_conv)
    with hu show ?thesis by (intro dropWhile_fix) simp
  qed
  then have "str_strip (rev ?v) = rev (dropWhile is_space (rev (rev ?v)))"
    by (simp add: str_strip_def)
  also have "\<dots> = rev ?v" by simp
  finally show ?thesis using w by simp
qed

lemma collapse_spaces_idem: "collapse_spaces (collapse_spaces s) = collapse_spaces s"
proof -
  have "ws_normal (str_strip (collapse_ws s))"
    by (intro ws_normal_strip ws_normal_collapse)
  then have "collapse_ws (str_strip (collapse_ws s)) = str_strip (collapse_ws s)"
    by (rule collapse_ws_normal)
  then show ?thesis by (simp add: collapse_spaces_def str_strip_idem)
qed

lemma sanitize_string_idem: "sanitize_string (sanitize_string s) = sanitize_string s"
  by (auto simp: sanitize_string_def intro!: filter_cong)

lemma takeWhile_until: "r \<notin> set m \<Longrightarrow> takeWhile (\<lambda>x. x \<noteq> r) (m @ [r]) = m"
  by (induction m) auto

lemma re_search_span_shape:
  "re_search_span l r s = Some t \<Longrightarrow> \<exists>m. t = l # m @ [r] \<and> r \<notin> set m"
proof (induction s)
  case Nil
  then show ?case by simp
next
  case (Cons c cs)
  show ?case
  proof (cases "c = l \<and> r \<in> set cs")
    case True
    with Cons.prems have "t = l # takeWhile (\<lambda>x. x \<noteq> r) cs @ [r]" by auto
    moreover have "r \<notin> set (takeWhile (\<lambda>x. x \<noteq> r) cs)"
      by (auto dest: set_takeWhileD)
    ultimately show ?thesis by blast
  next
    case False
    with Cons show ?thesis by auto
  qed
qed

lemma re_search_span_fix:
  "r \<notin> set m \<Longrightarrow> re_search_span l r (l # m @ [r]) = Some (l # m @ [r])"
  by (simp add: takeWhile_until)

lemma str_find_head: "str_find c (c # s) = 0"
  by (simp add: str_find_def)

lemma str_find_later: "c \<noteq> d \<Longrightarrow> str_find c (d # s) = - 1 \<or> 1 \<le> str_find c (d # s)"
  by (simp add: str_find_def)

lemma extract_span_fix:
  assumes "r \<notin> set m"
    and "(l = CHR ''{'' \<and> r = CHR ''}'') \<or> (l = CHR ''['' \<and> r = CHR '']'')"
  shows "extract_and_evaluate_first (l # m @ [r]) = Inr (l # m @ [r])"
proof -
  from assms(2) show ?thesis
  proof
    assume a: "l = CHR ''{'' \<and> r = CHR ''}''"
    have "str_find CHR ''['' (CHR ''{'' # m @ [r]) = - 1 \<or> 1 \<le> str_find CHR ''['' (CHR ''{'' # m @ [r])"
      by (rule str_find_later) simp
    with a re_search_span_fix [OF assms(1), of l] show ?thesis
      by (auto simp: extract_and_evaluate_first_def Let_def str_find_head group0_def
               simp del: re_search_span.simps)
  next
    assume a: "l = CHR ''['' \<and> r = CHR '']''"
    have "str_find CHR ''{'' (CHR ''['' # m @ [r]) = - 1 \<or> 1 \<le> str_find CHR ''{'' (CHR ''['' # m @ [r])"
      by (rule str_find_later) simp
    with a re_search_span_fix [OF assms(1), of l] show ?thesis
      by (auto simp: extract_and_evaluate_first_def Let_def str_find_head group0_def
               simp del: re_search_span.simps)
  qed
qed

lemma extract_idem:
  assumes "extract_and_evaluate_first s = Inr t"
  shows "extract_and_evaluate_first t = Inr t"
proof -
  let ?ic = "str_find CHR ''{'' s" and ?is = "str_find CHR ''['' s"
  consider (curly) "(0 \<le> ?ic \<and> ?ic < ?is) \<or> (?ic \<noteq> - 1 \<and> ?is = - 1)"
    | (square) "\<not> ((0 \<le> ?ic \<and> ?ic < ?is) \<or> (?ic \<noteq> - 1 \<and> ?is = - 1))"
        "(0 \<le> ?is \<and> ?is < ?ic) \<or> (?is \<noteq> - 1 \<and> ?ic = - 1)"
    | (plain) "\<not> ((0 \<le> ?ic \<and> ?ic < ?is) \<or> (?ic \<noteq> - 1 \<and> ?is = - 1))"
        "\<not> ((0 \<le> ?is \<and> ?is < ?ic) \<or> (?is \<noteq> - 1 \<and> ?ic = - 1))"
    by blast
  then show ?thesis
  proof cases
    case curly
    with assms have "re_search_span CHR ''{'' CHR ''}'' s = Some t"
      by (auto simp: extract_and_evaluate_first_def Let_def group0_def split: option.splits)
    then obtain m where "t = CHR ''{'' # m @ [CHR ''}'']" and "CHR ''}'' \<notin> set m"
      using re_search_span_shape by blast
    then show ?thesis using extract_span_fix by simp
  next
    case square
    with assms have "re_search_span CHR ''['' CHR '']'' s = Some t"
      by (auto simp: extract_and_evaluate_first_def Let_def group0_def split: option.splits)
    then obtain m where "t = CHR ''['' # m @ [CHR '']'']" and "CHR '']'' \<notin> set m"
      using re_search_span_shape by blast
    then show ?thesis using extract_span_fix by simp
  next
    case plain
    with assms have "t = s"
      by (auto simp: extract_and_evaluate_first_def Let_def)
    with assms show ?thesis by simp
  qed
qed

section \<open>Lemmas on the decoder\<close>

lemma decode_cases:
  "decode lit js dflt s =
     \<lparr>dvalue = (case lit s of Some v \<Rightarrow> v | None \<Rightarrow> (case js s of Some v \<Rightarrow> v | None \<Rightarrow> dflt)),
      attempts = (if lit s = None then [(Literal_eval, s), (Json_loads, s)] else [(Literal_eval, s)]),
      dlog = (if lit s = None \<and> js s = None then [Formatting_failed s] else [])\<rparr>"
  by (simp add: decode_def split: option.splits)

lemma acaps_call_decodes:
  assumes "response_content cr = Inr (PStr t)" and "acaps_postprocess_json_string t = Inr s"
  shows "acaps_call_chatgpt_async lit js (Body cr) =
     \<lparr>outcome = Inr (case lit s of Some v \<Rightarrow> v | None \<Rightarrow> (case js s of Some v \<Rightarrow> v | None \<Rightarrow> PDict [])),
      parser_calls = (if lit s = None then [(Literal_eval, s), (Json_loads, s)] else [(Literal_eval, s)]),
      log = (if lit s = None \<and> js s = None then [Formatting_failed s] else [])\<rparr>"
  using assms by (simp add: acaps_call_chatgpt_async_def decode_cases Let_def)

lemma ohchr_call_decodes:
  assumes "response_content cr = Inr (PStr t)" and "ohchr_postprocess_json_string t = Inr s"
  shows "ohchr_call_chatgpt_async lit js Extraction (Body cr) =
     \<lparr>outcome = Inr (case lit s of Some v \<Rightarrow> v | None \<Rightarrow> (case js s of Some v \<Rightarrow> v | None \<Rightarrow> PList [])),
      parser_calls = (if lit s = None then [(Literal_eval, s), (Json_loads, s)] else [(Literal_eval, s)]),
      log = (if lit s = None \<and> js s = None then [Formatting_failed s] else [])\<rparr>"
  using assms by (simp add: ohchr_call_chatgpt_async_def decode_cases Let_def)

section \<open>Lemmas on the bulk runner\<close>

lemma count_update:
  "i < length xs \<Longrightarrow>
     length (filter P (xs[i := y])) + (if P (xs ! i) then 1 else 0)
       = length (filter P xs) + (if P y then 1 else 0)"
proof (induction xs arbitrary: i)
  case Nil
  then show ?case by simp
next
  case (Cons x xs)
  show ?case
  proof (cases i)
    case 0
    then show ?thesis by simp
  next
    case (Suc j)
    with Cons.prems have "j < length xs" by simp
    from Cons.IH [OF this] Suc show ?thesis by simp
  qed
qed


lemma fire_in_flight:
  assumes "fire call e s = Some s'"
  shows "in_flight s' + sem s' = in_flight s + sem s"
proof (cases e)
  case (Acquire i)
  with assms have i: "i < length (tasks s)" and p: "tasks s ! i = Pending" and f: "0 < sem s"
    and s': "s' = \<lparr>sem = sem s - 1, tasks = (tasks s)[i := Dispatched]\<rparr>"
    by (auto split: if_splits)
  from count_update [OF i, of "\<lambda>t. t = Dispatched" Dispatched] p
  have "in_flight s' = in_flight s + 1" by (simp add: in_flight_def s')
  with f s' show ?thesis by simp
next
  case (Respond i)
  with assms have i: "i < length (tasks s)" and p: "tasks s ! i = Dispatched"
    and s': "s' = \<lparr>sem = sem s + 1, tasks = (tasks s)[i := Done (call i)]\<rparr>"
    by (auto split: if_splits)
  from count_update [OF i, of "\<lambda>t. t = Dispatched" "Done (call i)"] p
  have "in_flight s' + 1 = in_flight s" by (simp add: in_flight_def s')
  with s' show ?thesis by simp
next
  case (Cancel i)
  with assms have i: "i < length (tasks s)"
    and c: "(tasks s ! i = Pending \<and> s' = \<lparr>sem = sem s, tasks = (tasks s)[i := Cancelled]\<rparr>)
          \<or> (tasks s ! i = Dispatched \<and> s' = \<lparr>sem = sem s + 1, tasks = (tasks s)[i := Cancelled]\<rparr>)"
    by (auto split: if_splits)
  from c show ?thesis
  proof
    assume a: "tasks s ! i = Pending \<and> s' = \<lparr>sem = sem s, tasks = (tasks s)[i := Cancelled]\<rparr>"
    with count_update [OF i, of "\<lambda>t. t = Dispatched" Cancelled]
    show ?thesis by (simp add: in_flight_def)
  next
    assume a: "tasks s ! i = Dispatched \<and> s' = \<lparr>sem = sem s + 1, tasks = (tasks s)[i := Cancelled]\<rparr>"
    with count_update [OF i, of "\<lambda>t. t = Dispatched" Cancelled]
    have "in_flight s' + 1 = in_flight s" by (simp add: in_flight_def)
    with a show ?thesis by simp
  qed
qed

lemma reachable_slots:
  "reachable call rate_limit n s \<Longrightarrow> in_flight s + sem s = rate_limit"
proof (induction rule: reachable.induct)
  case start
  show ?case by (simp add: bulk_init_def in_flight_def)
next
  case (step s e s')
  with fire_in_flight [OF step.hyps(2)] show ?case by simp
qed





lemma run_reachable:
  "reachable call rate_limit n s \<Longrightarrow> run call evs s = Some s' \<Longrightarrow> reachable call rate_limit n s'"
proof (induction evs arbitrary: s)
  case Nil
  then show ?case by simp
next
  case (Cons e evs)
  from Cons.prems(2) obtain s1 where f: "fire call e s = Some s1" and r: "run call evs s1 = Some s'"
    by (auto split: option.splits)
  from Cons.prems(1) f have "reachable call rate_limit n s1" by (rule reachable.step)
  from Cons.IH [OF this r] show ?case .
qed




lemma sum_update:
  "i < length xs \<Longrightarrow>
     sum_list (map f (xs[i := y])) + f (xs ! i) = sum_list (map f xs) + (f y :: nat)"
proof (induction xs arbitrary: i)
  case Nil
  then show ?case by simp
next
  case (Cons x xs)
  show ?case
  proof (cases i)
    case 0
    then show ?thesis by simp
  next
    case (Suc j)
    with Cons.prems have "j < length xs" by simp
    from Cons.IH [OF this] Suc show ?thesis by simp
  qed
qed

lemma fire_weight:
  assumes "fire call e s = Some s'"
  shows "weight s' < weight s"
proof -
  from assms obtain i y where i: "i < length (tasks s)"
    and s': "tasks s' = (tasks s)[i := y]"
    and w: "task_weight y < task_weight (tasks s ! i)"
    by (cases e) (auto split: if_splits)
  from sum_update [OF i, of task_weight y] w show ?thesis
    by (simp add: weight_def s')
qed

lemma run_bound: "run call evs s = Some s' \<Longrightarrow> length evs + weight s' \<le> weight s"
proof (induction evs arbitrary: s)
  case Nil
  then show ?case by simp
next
  case (Cons e evs)
  from Cons.prems obtain s1 where f: "fire call e s = Some s1" and r: "run call evs s1 = Some s'"
    by (auto split: option.splits)
  from Cons.IH [OF r] fire_weight [OF f] show ?case by simp
qed

lemma weight_init: "weight (bulk_init rate_limit n) = 2 * n"
  by (induction n) (simp_all add: weight_def bulk_init_def)


lemma run_append:
  "run call (xs @ ys) s = (case run call xs s of None \<Rightarrow> None | Some s1 \<Rightarrow> run call ys s1)"
  by (induction xs arbitrary: s) (auto split: option.splits)



section \<open>Lemmas on the joiners\<close>

lemma bnd_Inr: "bnd r f = Inr y \<longleftrightarrow> (\<exists>v. r = Inr v \<and> f v = Inr y)"
  by (cases r) (simp_all add: bnd_def)

lemma bnd_simps [simp]: "bnd (Inr v) f = f v" "bnd (Inl e) f = Inl e"
  by (simp_all add: bnd_def)

lemma list_getitem_in_range:
  assumes "- int (length es) \<le> i" and "i < int (length es)"
  shows "list_getitem es i = Inr (es ! nat (if i < 0 then i + int (length es) else i))"
  using assms by (simp add: list_getitem_def Let_def)



lemma list_getitem_negative:
  assumes "1 \<le> m" and "m \<le> length es"
  shows "list_getitem es (- int m) = Inr (es ! (length es - m))"
proof -
  have "nat (- int m + int (length es)) = length es - m" using assms by simp
  with assms show ?thesis by (simp add: list_getitem_def Let_def)
qed



lemma resolve_refs_inv:
  "resolve_refs conv es ids = Inr out \<Longrightarrow>
     length out = length ids
     \<and> (\<forall>j < length ids. \<exists>i. conv (ids ! j) = Inr i \<and> list_getitem es i = Inr (out ! j))"
proof (induction ids arbitrary: out)
  case Nil
  then show ?case by simp
next
  case (Cons r rs)
  from Cons.prems obtain i x xs where c: "conv r = Inr i" and g: "list_getitem es i = Inr x"
    and rest: "resolve_refs conv es rs = Inr xs" and out: "out = x # xs"
    by (auto simp: bnd_Inr)
  from Cons.IH [OF rest] have l: "length xs = length rs"
    and a: "\<forall>j < length rs. \<exists>i. conv (rs ! j) = Inr i \<and> list_getitem es i = Inr (xs ! j)"
    by simp_all
  have "\<forall>j < length (r # rs). \<exists>i. conv ((r # rs) ! j) = Inr i \<and> list_getitem es i = Inr (out ! j)"
  proof (intro allI impI)
    fix j assume "j < length (r # rs)"
    then show "\<exists>i. conv ((r # rs) ! j) = Inr i \<and> list_getitem es i = Inr (out ! j)"
      using c g a out by (cases j) auto
  qed
  with l out show ?case by simp
qed

lemma extracted_infos_inv:
  "extracted_infos rows i answers = Inr out \<Longrightarrow>
     length out = length rows
     \<and> (\<forall>k < length rows. \<exists>answer ids.
           list_getitem answers (int (i + k)) = Inr answer \<and> py_iter answer = Inr ids
           \<and> resolve_refs list_index (rows ! k) ids = Inr (out ! k))"
proof (induction rows arbitrary: i out)
  case Nil
  then show ?case by simp
next
  case (Cons row rows)
  from Cons.prems obtain answer ids x xs where
    a: "list_getitem answers (int i) = Inr answer" and it: "py_iter answer = Inr ids"
    and r: "resolve_refs list_index row ids = Inr x"
    and rest: "extracted_infos rows (Suc i) answers = Inr xs" and out: "out = x # xs"
    by (auto simp: bnd_Inr)
  from Cons.IH [OF rest] have l: "length xs = length rows"
    and ih: "\<forall>k < length rows. \<exists>answer ids.
           list_getitem answers (int (Suc i + k)) = Inr answer \<and> py_iter answer = Inr ids
           \<and> resolve_refs list_index (rows ! k) ids = Inr (xs ! k)"
    by simp_all
  have "\<forall>k < length (row # rows). \<exists>answer ids.
           list_getitem answers (int (i + k)) = Inr answer \<and> py_iter answer = Inr ids
           \<and> resolve_refs list_index ((row # rows) ! k) ids = Inr (out ! k)"
  proof (intro allI impI)
    fix k assume k: "k < length (row # rows)"
    show "\<exists>answer ids.
           list_getitem answers (int (i + k)) = Inr answer \<and> py_iter answer = Inr ids
           \<and> resolve_refs list_index ((row # rows) ! k) ids = Inr (out ! k)"
    proof (cases k)
      case 0
      with a it r out show ?thesis by auto
    next
      case (Suc k')
      with k have "k' < length rows" by simp
      with ih obtain answer' ids' where
        "list_getitem answers (int (Suc i + k')) = Inr answer'" "py_iter answer' = Inr ids'"
        "resolve_refs list_index (rows ! k') ids' = Inr (xs ! k')" by blast
      with Suc out show ?thesis by auto
    qed
  qed
  with l out show ?case by simp
qed

lemma postprocessed_results_inv:
  assumes "postprocessed_results df i stmts = Inr out" and "k < length stmts"
    and "py_len (stmts ! k) = Inr n" and "0 < n"
  shows "i + k < length df \<and> (\<exists>gtext ids id_list ev.
           py_getitem (stmts ! k) (PStr ''Text'') = Inr gtext
           \<and> py_getitem (stmts ! k) (PStr ''ID'') = Inr ids
           \<and> py_iter ids = Inr id_list
           \<and> resolve_refs py_int (entries (df ! (i + k))) id_list = Inr ev
           \<and> \<lparr>Country = country (df ! (i + k)),
               Breakdown_Column = breakdown_column (df ! (i + k)),
               Value_col = value_col (df ! (i + k)),
               Last_Date = last_date (df ! (i + k)),
               Generated_Text = gtext,
               Evidence = ev\<rparr> \<in> set out)"
  using assms(1,2,3)
proof (induction stmts arbitrary: i k out)
  case Nil
  then show ?case by simp
next
  case (Cons stmt rest)
  from Cons.prems(1) obtain n0 where len0: "py_len stmt = Inr n0"
    by (auto simp: bnd_Inr)
  show ?case
  proof (cases k)
    case 0
    with Cons.prems(3) len0 have n0: "n0 = n" by simp
    with Cons.prems(1) len0 assms(4) obtain gtext ids id_list ev rows where
      "i < length df" "py_getitem stmt (PStr ''Text'') = Inr gtext"
      "py_getitem stmt (PStr ''ID'') = Inr ids" "py_iter ids = Inr id_list"
      "resolve_refs py_int (entries (df ! i)) id_list = Inr ev"
      "out = \<lparr>Country = country (df ! i), Breakdown_Column = breakdown_column (df ! i),
              Value_col = value_col (df ! i), Last_Date = last_date (df ! i),
              Generated_Text = gtext, Evidence = ev\<rparr> # rows"
      by (auto simp: bnd_Inr split: if_splits)
    with 0 show ?thesis by auto
  next
    case (Suc k')
    from Cons.prems(1) len0 have
      "\<exists>out'. postprocessed_results df (Suc i) rest = Inr out' \<and> set out' \<subseteq> set out"
      by (cases "0 < n0") (auto simp: bnd_Inr)
    then obtain out' where
      rest: "postprocessed_results df (Suc i) rest = Inr out'" and sub: "set out' \<subseteq> set out"
      by blast
    from Suc Cons.prems(2,3) have "k' < length rest" and "py_len (rest ! k') = Inr n" by simp_all
    from Cons.IH [OF rest this] sub Suc show ?thesis by auto
  qed
qed

section \<open>Further lemmas\<close>

lemma ws_normal_spaces: "ws_normal s \<Longrightarrow> c \<in> set s \<Longrightarrow> is_space c \<Longrightarrow> c = CHR '' ''"
  by (induction s) (auto split: if_splits)

lemma collapse_spaces_flat:
  "set (collapse_spaces s) \<inter> {CHR 0x0A, CHR 0x09, CHR 0x0D} = {}"
proof -
  have n: "ws_normal (collapse_spaces s)"
    unfolding collapse_spaces_def by (intro ws_normal_strip ws_normal_collapse)
  have "c \<notin> set (collapse_spaces s)" if "is_space c" and "c \<noteq> CHR '' ''" for c
    using ws_normal_spaces [OF n] that by blast
  from this [of "CHR 0x0A"] this [of "CHR 0x09"] this [of "CHR 0x0D"]
  show ?thesis by (simp add: is_space_def)
qed

lemma whitespace_step_idem:
  "collapse_spaces (flatten_newlines (collapse_spaces (flatten_newlines s)))
     = collapse_spaces (flatten_newlines s)"
  by (simp add: flatten_newlines_fix [OF collapse_spaces_flat] collapse_spaces_idem)

lemma add_comma_pair:
  assumes "list_all is_space ws"
  shows "add_comma_between_quotes (CHR 0x22 # ws @ CHR 0x22 # rest)
           = CHR 0x22 # ws @ [CHR 0x22, CHR '',''] @ add_comma_between_quotes rest"
proof -
  from assms have all: "\<And>x. x \<in> set ws \<Longrightarrow> is_space x" by (simp add: list_all_iff)
  have q: "\<not> is_space (CHR 0x22)" by (simp add: is_space_def)
  have d: "dropWhile is_space (ws @ CHR 0x22 # rest) = CHR 0x22 # rest"
    using all q by (simp add: dropWhile_append2)
  have t: "takeWhile is_space (ws @ CHR 0x22 # rest) = ws"
    using all q by (simp add: takeWhile_append2)
  show ?thesis by (simp add: d t)
qed

lemma list_getitem_Inr: "list_getitem xs (int k) = Inr a \<Longrightarrow> k < length xs \<and> a = xs ! k"
  by (auto simp: list_getitem_def Let_def split: if_splits)


lemma py_getitem_dict_nonempty: "py_getitem (PDict kvs) k = Inr v \<Longrightarrow> 0 < length kvs"
  by (cases kvs) (auto elim: py_getitem.elims)

section \<open>Lemmas on the whole ACAPS joiner and on resolving answers\<close>

lemma collect_Inr:
  "collect rs = Inr ys \<Longrightarrow> length ys = length rs \<and> (\<forall>i < length rs. rs ! i = Inr (ys ! i))"
proof (induction rs arbitrary: ys)
  case Nil
  then show ?case by simp
next
  case (Cons r rs)
  from Cons.prems obtain x xs where r: "r = Inr x" and c: "collect rs = Inr xs"
    and ys: "ys = x # xs" by (auto simp: bnd_Inr)
  from Cons.IH [OF c] have l: "length xs = length rs"
    and a: "\<forall>i < length rs. rs ! i = Inr (xs ! i)" by simp_all
  have "\<forall>i < length (r # rs). (r # rs) ! i = Inr (ys ! i)"
  proof (intro allI impI)
    fix i assume "i < length (r # rs)"
    then show "(r # rs) ! i = Inr (ys ! i)" using r a ys by (cases i) auto
  qed
  with l ys show ?case by simp
qed

lemma collect_member:
  assumes "collect (map f xs) = Inr ys" and "x \<in> set xs"
  shows "\<exists>y \<in> set ys. f x = Inr y"
proof -
  from assms(2) obtain i where i: "i < length xs" and x: "xs ! i = x"
    by (auto simp: in_set_conv_nth)
  from collect_Inr [OF assms(1)] i have "length ys = length xs" and "f (xs ! i) = Inr (ys ! i)"
    by simp_all
  with i x show ?thesis by (metis nth_mem)
qed

lemma collect_all:
  "\<forall>r \<in> set rs. \<not> isl r \<Longrightarrow> \<exists>ys. collect rs = Inr ys"
proof (induction rs)
  case Nil
  show ?case by simp
next
  case (Cons r rs)
  then obtain ys where "collect rs = Inr ys" by auto
  moreover from Cons.prems obtain x where "r = Inr x" by (cases r) auto
  ultimately show ?case by simp
qed

lemma explode_member:
  assumes "r \<in> set rows" and "e \<in> set (Evidence r)"
  shows "\<lparr>Country = Country r, Breakdown_Column = Breakdown_Column r, Value_col = Value_col r,
          Last_Date = Last_Date r, Generated_Text = Generated_Text r, Evidence = Some e\<rparr>
         \<in> set (explode rows)"
proof -
  from assms(2) have "Evidence r \<noteq> []" by auto
  with assms show ?thesis unfolding explode_def by (auto intro!: bexI [of _ r])
qed

lemma explode_cells:
  assumes "\<forall>r \<in> set rows. Evidence r \<noteq> []" and "x \<in> set (explode rows)"
  shows "Evidence x \<noteq> None"
  using assms unfolding explode_def by (auto split: if_splits)


lemma general_summary_labels_keeps:
  "Country (general_summary_labels r) = Country r"
  "Generated_Text (general_summary_labels r) = Generated_Text r"
  "Evidence (general_summary_labels r) = Evidence r"
  "Source_Original_Text (general_summary_labels r) = Source_Original_Text r"
  by (simp_all add: general_summary_labels_def Let_def)

lemma get_final_results_Inr:
  assumes "get_final_results df stmts = Inr frame"
  shows "\<exists>rows. postprocessed_results df 0 stmts = Inr rows \<and> rows \<noteq> []
           \<and> (\<forall>r \<in> set rows. \<forall>e \<in> set (Evidence r).
                 \<exists>row \<in> set frame. Country row = Country r
                    \<and> Generated_Text row = Generated_Text r \<and> Evidence row = e
                    \<and> Source_Original_Text row = str_replace [CHR 0x0A] '' '' (entry_text e))"
proof -
  from assms obtain rows fr where loop: "postprocessed_results df 0 stmts = Inr rows"
    and ne: "rows \<noteq> []" and c: "collect (map source_columns (explode rows)) = Inr fr"
    and frame: "frame = map general_summary_labels fr"
    by (auto simp: get_final_results_def bnd_Inr split: if_splits)
  have "\<exists>row \<in> set frame. Country row = Country r
            \<and> Generated_Text row = Generated_Text r \<and> Evidence row = e
            \<and> Source_Original_Text row = str_replace [CHR 0x0A] '' '' (entry_text e)"
    if r: "r \<in> set rows" and e: "e \<in> set (Evidence r)" for r e
  proof -
    let ?x = "\<lparr>Country = Country r, Breakdown_Column = Breakdown_Column r,
               Value_col = Value_col r, Last_Date = Last_Date r,
               Generated_Text = Generated_Text r, Evidence = Some e\<rparr>"
    have "?x \<in> set (explode rows)" using r e by (rule explode_member)
    from collect_member [OF c this] obtain y where y: "y \<in> set fr"
      and s: "source_columns ?x = Inr y" by blast
    from s have "Country y = Country r" "Generated_Text y = Generated_Text r" "Evidence y = e"
      "Source_Original_Text y = str_replace [CHR 0x0A] '' '' (entry_text e)"
      by (auto simp: source_columns_def)
    moreover from y frame have "general_summary_labels y \<in> set frame" by simp
    ultimately show ?thesis by (metis general_summary_labels_keeps)
  qed
  with loop ne show ?thesis by blast
qed

lemma resolve_refs_resolves:
  assumes "conv = py_int \<or> conv = list_index" and "list_all (in_range es) ids"
  shows "\<exists>out. resolve_refs conv es ids = Inr out \<and> length out = length ids"
  using assms(2)
proof (induction ids)
  case Nil
  show ?case by simp
next
  case (Cons r ids)
  from Cons.prems obtain i where r: "r = PInt i" and lo: "- int (length es) \<le> i"
    and hi: "i < int (length es)"
    by (cases r) (auto simp: in_range_def)
  from assms(1) r have c: "conv r = Inr i" by auto
  from list_getitem_in_range [OF lo hi] obtain x where g: "list_getitem es i = Inr x" by blast
  from Cons obtain out where "resolve_refs conv es ids = Inr out" "length out = length ids"
    by auto
  with c g show ?case by simp
qed

lemma extracted_infos_resolves:
  assumes "i + length rows \<le> length answers"
    and "\<forall>k < length rows. list_resolves (rows ! k) (answers ! (i + k))"
  shows "\<exists>out. extracted_infos rows i answers = Inr out"
  using assms
proof (induction rows arbitrary: i)
  case Nil
  show ?case by simp
next
  case (Cons row rows)
  from Cons.prems(1) have g: "list_getitem answers (int i) = Inr (answers ! i)"
    by (simp add: list_getitem_def)
  from Cons.prems(2) have "list_resolves row (answers ! i)" by fastforce
  then obtain ids where a: "answers ! i = PList ids" and ok: "list_all (in_range row) ids"
    by (cases "answers ! i") (auto simp: list_resolves_def)
  from resolve_refs_resolves [OF _ ok, of list_index] obtain x where
    r: "resolve_refs list_index row ids = Inr x" by auto
  have "\<forall>k < length rows. list_resolves (rows ! k) (answers ! (Suc i + k))"
  proof (intro allI impI)
    fix k assume "k < length rows"
    then have "Suc k < length (row # rows)" by simp
    with Cons.prems(2) have "list_resolves ((row # rows) ! Suc k) (answers ! (i + Suc k))"
      by blast
    then show "list_resolves (rows ! k) (answers ! (Suc i + k))" by simp
  qed
  moreover from Cons.prems(1) have "Suc i + length rows \<le> length answers" by simp
  ultimately obtain out where "extracted_infos rows (Suc i) answers = Inr out"
    using Cons.IH by blast
  with g a r show ?case by simp
qed

lemma postprocessed_results_resolves:
  assumes "\<forall>k < length stmts. i + k < length df
             \<and> (stmts ! k = PDict [] \<or> statement_resolves (df ! (i + k)) (stmts ! k))"
  shows "\<exists>rows. postprocessed_results df i stmts = Inr rows
           \<and> (\<forall>r \<in> set rows. Evidence r \<noteq> [])
           \<and> ((\<exists>k < length stmts. stmts ! k \<noteq> PDict []) \<longrightarrow> rows \<noteq> [])"
  using assms
proof (induction stmts arbitrary: i)
  case Nil
  show ?case by simp
next
  case (Cons stmt rest)
  have "\<forall>k < length rest. Suc i + k < length df
             \<and> (rest ! k = PDict [] \<or> statement_resolves (df ! (Suc i + k)) (rest ! k))"
  proof (intro allI impI)
    fix k assume "k < length rest"
    then have "Suc k < length (stmt # rest)" by simp
    with Cons.prems have "i + Suc k < length df
        \<and> ((stmt # rest) ! Suc k = PDict []
            \<or> statement_resolves (df ! (i + Suc k)) ((stmt # rest) ! Suc k))" by blast
    then show "Suc i + k < length df
             \<and> (rest ! k = PDict [] \<or> statement_resolves (df ! (Suc i + k)) (rest ! k))"
      by simp
  qed
  from Cons.IH [OF this] obtain rows where
    rest: "postprocessed_results df (Suc i) rest = Inr rows"
    and ev: "\<forall>r \<in> set rows. Evidence r \<noteq> []"
    and ne: "(\<exists>k < length rest. rest ! k \<noteq> PDict []) \<longrightarrow> rows \<noteq> []" by blast
  from Cons.prems have here: "i < length df"
    and alt: "stmt = PDict [] \<or> statement_resolves (df ! i) stmt" by fastforce+
  show ?case
  proof (cases "stmt = PDict []")
    case True
    have "(\<exists>k < length (stmt # rest). (stmt # rest) ! k \<noteq> PDict [])
           \<longrightarrow> (\<exists>k < length rest. rest ! k \<noteq> PDict [])"
    proof
      assume "\<exists>k < length (stmt # rest). (stmt # rest) ! k \<noteq> PDict []"
      then obtain k where k: "k < length (stmt # rest)" "(stmt # rest) ! k \<noteq> PDict []" by blast
      with True obtain k' where "k = Suc k'" by (cases k) auto
      with k show "\<exists>k < length rest. rest ! k \<noteq> PDict []" by auto
    qed
    with True rest ev ne show ?thesis by simp
  next
    case False
    with alt have sr: "statement_resolves (df ! i) stmt" by simp
    then obtain kvs gtext ids where s: "stmt = PDict kvs"
      and t: "py_getitem stmt (PStr ''Text'') = Inr gtext"
      and idk: "py_getitem stmt (PStr ''ID'') = Inr ids"
      and nonempty: "ids \<noteq> PList []" and lr: "list_resolves (entries (df ! i)) ids"
      by (cases stmt) (auto simp: statement_resolves_def split: sum.splits)
    from lr obtain idl where ids: "ids = PList idl"
      and ok: "list_all (in_range (entries (df ! i))) idl"
      by (cases ids) (auto simp: list_resolves_def)
    from nonempty ids have idl: "idl \<noteq> []" by simp
    from resolve_refs_resolves [OF _ ok, of py_int] obtain out where
      r: "resolve_refs py_int (entries (df ! i)) idl = Inr out" and l: "length out = length idl"
      by auto
    from l idl have out: "out \<noteq> []" by auto
    have pos: "0 < length kvs" using idk unfolding s by (rule py_getitem_dict_nonempty)
    have "postprocessed_results df i (stmt # rest) =
            Inr (\<lparr>Country = country (df ! i), Breakdown_Column = breakdown_column (df ! i),
                  Value_col = value_col (df ! i), Last_Date = last_date (df ! i),
                  Generated_Text = gtext, Evidence = out\<rparr> # rows)"
      using s t idk ids r rest here pos by simp
    with ev out show ?thesis by simp
  qed
qed

lemma get_final_results_resolves:
  assumes "\<forall>k < length stmts. k < length df
             \<and> (stmts ! k = PDict [] \<or> statement_resolves (df ! k) (stmts ! k))"
    and "\<exists>k < length stmts. stmts ! k \<noteq> PDict []"
  shows "\<exists>frame. get_final_results df stmts = Inr frame"
proof -
  from postprocessed_results_resolves [of stmts 0 df] assms obtain rows where
    loop: "postprocessed_results df 0 stmts = Inr rows"
    and ev: "\<forall>r \<in> set rows. Evidence r \<noteq> []" and ne: "rows \<noteq> []" by auto
  have "\<forall>r \<in> set (map source_columns (explode rows)). \<not> isl r"
  proof
    fix r assume "r \<in> set (map source_columns (explode rows))"
    then obtain x where x: "x \<in> set (explode rows)" and r: "r = source_columns x" by auto
    from explode_cells [OF ev x] obtain e where "Evidence x = Some e" by auto
    with r show "\<not> isl r" by (simp add: source_columns_def)
  qed
  from collect_all [OF this] obtain fr where
    "collect (map source_columns (explode rows)) = Inr fr" by blast
  with loop ne show ?thesis by (simp add: get_final_results_def)
qed

section \<open>Lemmas on a batch with a raising call\<close>



section \<open>Evaluating the model on concrete inputs\<close>

lemmas sanitizer_eval =
  acaps_postprocess_json_string_def ohchr_postprocess_json_string_def acaps_replaces_def
  ohchr_replaces_def strip_fences_def flatten_newlines_def normalize_nbsp_def collapse_spaces_def
  str_replace_def str_strip_def is_space_def sanitize_string_def extract_and_evaluate_first_def
  str_find_def group0_def

lemmas parser_eval =
  literal_eval_fragment_def json_loads_fragment_def as_parser_def parse_fragment_def
  is_digit_def digits_value_def push_token_def open_ctx_def pstep_def expect_step_def have_step_def

lemmas call_eval =
  acaps_call_chatgpt_async_def ohchr_call_chatgpt_async_def decode_def response_content_def
  completion_def list_getitem_def

lemmas bulk_eval =
  acaps_call_chatgpt_bulk_def ohchr_call_chatgpt_bulk_def call_chatgpt_bulk_def bulk_init_def
  bulk_return_def finished_def failed_def acaps_task_def ohchr_task_def

lemma ohchr_list_0:
  "ohchr_call_chatgpt_async literal_eval_fragment json_loads_fragment Extraction
     (completion (PStr ''[0]'')) =
   \<lparr>outcome = Inr (PList [PInt 0]), parser_calls = [(Literal_eval, ''[0]'')], log = []\<rparr>"
  by (simp add: call_eval sanitizer_eval parser_eval)

lemma ohchr_list_cut:
  "ohchr_call_chatgpt_async literal_eval_fragment json_loads_fragment Extraction
     (completion (PStr ''[0, 1'')) =
   \<lparr>outcome = Inl AttributeError, parser_calls = [], log = []\<rparr>"
  by (simp add: call_eval sanitizer_eval parser_eval)

lemma acaps_empty:
  "acaps_call_chatgpt_async literal_eval_fragment json_loads_fragment
     (completion (PStr ''{}'')) =
   \<lparr>outcome = Inr (PDict []), parser_calls = [(Literal_eval, ''{}'')], log = []\<rparr>"
  by (simp add: call_eval sanitizer_eval parser_eval)


section \<open>The claims\<close>

subsection \<open>C1: a failing element of a batch\<close>

text \<open>
  Claim C1 says: for every batch given to \<^verbatim>\<open>call_chatgpt_bulk\<close> and every element of it, a
  failure of the element's network call or an unparseable response text yields the empty
  default of the kind at the element's slot, the result has exactly one entry per prompt,
  and no exception of one element (transport error, missing response fields, sanitization
  or parsing failure) reaches the caller.

  The code behaves otherwise. The theorem runs the batch of five prompts with rate limit 1
  in which the request of index 2 fails:
  \<^item> OHCHR, \<^verbatim>\<open>session.post\<close> raises: the \<^verbatim>\<open>except\<close> handler formats the unbound local
    \<^verbatim>\<open>clean_response\<close>, so the task ends with \<^verbatim>\<open>UnboundLocalError\<close>, the task group cancels
    the two waiting tasks and the caller gets an exception group instead of five results;
  \<^item> ACAPS, \<^verbatim>\<open>session.post\<close> raises: the request stands outside the \<^verbatim>\<open>try\<close>, and the
    transport error itself ends the batch;
  \<^item> OHCHR, the answer is the cut-off text \<^verbatim>\<open>[0, 1\<close>: \<^verbatim>\<open>re.search\<close> finds no closing bracket,
    \<^verbatim>\<open>.group(0)\<close> raises \<^verbatim>\<open>AttributeError\<close> outside every \<^verbatim>\<open>try\<close>, and the batch ends likewise.
\<close>

theorem bulk_element_failure_propagates:
  "ohchr_call_chatgpt_bulk literal_eval_fragment json_loads_fragment
      (\<lambda>i m. if i = 2 then Post_raises else completion (PStr ''[0]''))
      [''p0'', ''p1'', ''p2'', ''p3'', ''p4''] Extraction 1
      [Acquire 0, Respond 0, Acquire 1, Respond 1, Acquire 2, Respond 2, Cancel 3, Cancel 4]
    = Some (Inl (ExceptionGroup [UnboundLocalError]))
   \<and> acaps_call_chatgpt_bulk literal_eval_fragment json_loads_fragment
      (\<lambda>i m. if i = 2 then Post_raises else completion (PStr ''{}''))
      [''p0'', ''p1'', ''p2'', ''p3'', ''p4''] 1
      [Acquire 0, Respond 0, Acquire 1, Respond 1, Acquire 2, Respond 2, Cancel 3, Cancel 4]
    = Some (Inl (ExceptionGroup [ClientError]))
   \<and> ohchr_call_chatgpt_bulk literal_eval_fragment json_loads_fragment
      (\<lambda>i m. completion (PStr (if i = 2 then ''[0, 1'' else ''[0]'')))
      [''p0'', ''p1'', ''p2'', ''p3'', ''p4''] Extraction 1
      [Acquire 0, Respond 0, Acquire 1, Respond 1, Acquire 2, Respond 2, Cancel 3, Cancel 4]
    = Some (Inl (ExceptionGroup [AttributeError]))"
  by (simp add: bulk_eval ohchr_list_0 ohchr_list_cut acaps_empty
        ohchr_call_chatgpt_async_def [of _ _ _ Post_raises]
        acaps_call_chatgpt_async_def [of _ _ Post_raises])

subsection \<open>C2: the sanitizer as a total function\<close>

text \<open>
  Claim C2 says: \<^verbatim>\<open>sanitize\<close>, the \<^verbatim>\<open>_postprocess_json_string\<close> pipeline ending in the
  extraction of the first bracketed span, is total: for every input string, also one with
  an opening brace or bracket that is never closed, it returns a string and never raises.

  Both copies of the pipeline raise on such a string: \<^verbatim>\<open>re.search\<close> returns \<^verbatim>\<open>None\<close> and
  \<^verbatim>\<open>None.group(0)\<close> is an \<^verbatim>\<open>AttributeError\<close>. The theorem evaluates them on an answer that was
  cut off inside an object and on one cut off inside a list.
\<close>

theorem sanitize_raises_on_unclosed_bracket:
  \<open>acaps_postprocess_json_string ''{"Text": "The situation'' = Inl AttributeError
   \<and> ohchr_postprocess_json_string ''{"Text": "The situation'' = Inl AttributeError
   \<and> acaps_postprocess_json_string ''[0, 1'' = Inl AttributeError
   \<and> ohchr_postprocess_json_string ''[0, 1'' = Inl AttributeError\<close>
  by (simp add: sanitizer_eval)

subsection \<open>C3: results in submission order\<close>




subsection \<open>C4: the concurrency ceiling\<close>

text \<open>
  Claim C4 says: for every \<open>rate_limit \<ge> 1\<close> and every reachable state of a run of
  \<^verbatim>\<open>call_chatgpt_bulk\<close>, the number of requests in flight is at most \<open>rate_limit\<close>.

  A request is in flight only between the entry into \<^verbatim>\<open>async with semaphore\<close> and the end
  of the task, that is, while the task is \<open>Dispatched\<close>. In every reachable state the tasks in
  flight and the free slots add up to \<open>rate_limit\<close> (\<open>reachable_slots\<close>); the call function is
  arbitrary, so the statement holds for both runners.
\<close>

theorem concurrency_ceiling:
  assumes "1 \<le> rate_limit" and "reachable call rate_limit n s"
  shows "in_flight s \<le> rate_limit"
  using reachable_slots [OF assms(2)] by simp

text \<open>Two slots, three tasks: once two requests are in flight the third task cannot enter.\<close>

theorem concurrency_ceiling_witness:
  "(1::nat) \<le> 2
   \<and> run (\<lambda>i. Inr PNone) [Acquire 0, Acquire 2] (bulk_init 2 3)
        = Some \<lparr>sem = 0, tasks = [Dispatched, Pending, Dispatched]\<rparr>
   \<and> reachable (\<lambda>i. Inr PNone) 2 3 \<lparr>sem = 0, tasks = [Dispatched, Pending, Dispatched]\<rparr>
   \<and> in_flight \<lparr>sem = 0, tasks = [Dispatched, Pending, Dispatched]\<rparr> \<le> 2
   \<and> fire (\<lambda>i. Inr PNone) (Acquire 1) \<lparr>sem = 0, tasks = [Dispatched, Pending, Dispatched]\<rparr>
        = None"
proof -
  have r: "run (\<lambda>i. Inr PNone) [Acquire 0, Acquire 2] (bulk_init 2 3)
        = Some \<lparr>sem = 0, tasks = [Dispatched, Pending, Dispatched]\<rparr>"
    by (simp add: bulk_init_def eval_nat_numeral)
  have reach: "reachable (\<lambda>i. Inr PNone) 2 3 \<lparr>sem = 0, tasks = [Dispatched, Pending, Dispatched]\<rparr>"
    using run_reachable [OF reachable.start r] .
  have one: "(1::nat) \<le> 2" by simp
  from concurrency_ceiling [OF one reach] r reach show ?thesis by simp
qed

subsection \<open>C5: a failing completion call\<close>

text \<open>
  Claim C5 says: for every single completion call, a transport or API-level failure
  (non-2xx, malformed envelope, missing response fields) is caught locally, logged with
  the response, and replaced by the failure sentinel (empty-object text for extraction,
  empty string for summary) rather than propagated.

  This holds when the body of the response is JSON that lacks the expected fields. It does
  not hold when the request itself fails or the body is not JSON: the OHCHR handler then
  reads the local \<^verbatim>\<open>clean_response\<close>, which was never bound, and raises
  \<^verbatim>\<open>UnboundLocalError\<close>; the ACAPS caller has the request outside its \<^verbatim>\<open>try\<close>. The theorem
  evaluates both callers on these two failures, for any parsers and either response type.
\<close>

theorem transport_failure_not_caught:
  "outcome (ohchr_call_chatgpt_async literal_eval json_loads rtype Post_raises)
     = Inl UnboundLocalError
   \<and> outcome (ohchr_call_chatgpt_async literal_eval json_loads rtype Json_raises)
     = Inl UnboundLocalError
   \<and> outcome (acaps_call_chatgpt_async literal_eval json_loads Post_raises) = Inl ClientError
   \<and> outcome (acaps_call_chatgpt_async literal_eval json_loads Json_raises)
     = Inl ContentTypeError"
  by (simp add: call_eval)

subsection \<open>C6: idempotence of the sanitizer\<close>

text \<open>
  Claim C6 says: for every input string \<open>x\<close>, \<^verbatim>\<open>sanitize(sanitize(x)) == sanitize(x)\<close>, and each
  step of the sanitization (fence stripping, white space collapsing, non-breaking-space
  normalization, comma insertion between adjacent quoted tokens, control-character removal,
  bracket extraction) is itself idempotent.

  The ACAPS sanitizer is not idempotent. On the two-character answer of two double quotes
  the comma insertion appends a comma, and every further pass appends another one; the
  same happens inside an object with an empty string. Fence stripping is not idempotent
  either: removing \<^verbatim>\<open>json\<close> can bring three backquotes together.
\<close>

theorem sanitize_not_idempotent:
  \<open>acaps_postprocess_json_string ''""'' = Inr ''"",''
   \<and> acaps_postprocess_json_string ''"",'' = Inr ''"",,''
   \<and> acaps_postprocess_json_string ''{"Text": "", "ID": []}'' = Inr ''{"Text": "",, "ID": []}''
   \<and> acaps_postprocess_json_string ''{"Text": "",, "ID": []}''
       = Inr ''{"Text": "",,, "ID": []}''
   \<and> add_comma_between_quotes ''""'' = ''"",''
   \<and> add_comma_between_quotes ''"",'' = ''"",,''
   \<and> strip_fences ''``json`'' = ''```''
   \<and> strip_fences ''```'' = []\<close>
  by (simp add: sanitizer_eval)

text \<open>
  Claim C6 as amended: the two white space steps (the replacement of newline, tab and
  carriage return; the collapsing of white space runs with trimming), alone and composed,
  the non-breaking-space normalization, the control-character removal and the bracket
  extraction (on every input on which it returns) are idempotent. Fence stripping, comma
  insertion and the sanitizer as a whole are not.
\<close>

theorem sanitizer_steps_idempotent:
  \<open>collapse_spaces (flatten_newlines (collapse_spaces (flatten_newlines s)))
     = collapse_spaces (flatten_newlines s)
   \<and> flatten_newlines (flatten_newlines s) = flatten_newlines s
   \<and> collapse_spaces (collapse_spaces s) = collapse_spaces s
   \<and> normalize_nbsp (normalize_nbsp s) = normalize_nbsp s
   \<and> sanitize_string (sanitize_string s) = sanitize_string s
   \<and> (\<forall>t. extract_and_evaluate_first s = Inr t \<longrightarrow> extract_and_evaluate_first t = Inr t)
   \<and> strip_fences (strip_fences ''``json`'') \<noteq> strip_fences ''``json`''
   \<and> add_comma_between_quotes (add_comma_between_quotes ''""'')
       \<noteq> add_comma_between_quotes ''""''
   \<and> bnd (acaps_postprocess_json_string ''""'') acaps_postprocess_json_string
       \<noteq> acaps_postprocess_json_string ''""''\<close>
proof -
  have neg: \<open>strip_fences (strip_fences ''``json`'') \<noteq> strip_fences ''``json`''
   \<and> add_comma_between_quotes (add_comma_between_quotes ''""'')
       \<noteq> add_comma_between_quotes ''""''
   \<and> bnd (acaps_postprocess_json_string ''""'') acaps_postprocess_json_string
       \<noteq> acaps_postprocess_json_string ''""''\<close>
    by (simp add: sanitizer_eval)
  have "\<forall>t. extract_and_evaluate_first s = Inr t \<longrightarrow> extract_and_evaluate_first t = Inr t"
    using extract_idem by blast
  with neg show ?thesis
    by (simp only: whitespace_step_idem flatten_newlines_idem collapse_spaces_idem
          normalize_nbsp_idem sanitize_string_idem simp_thms)
qed

theorem sanitizer_steps_idempotent_witness:
  \<open>extract_and_evaluate_first ''Answer: [1, 2] {x}'' = Inr ''[1, 2]''
   \<and> extract_and_evaluate_first ''[1, 2]'' = Inr ''[1, 2]''
   \<and> collapse_spaces ''  a   b '' = ''a b''
   \<and> collapse_spaces (collapse_spaces ''  a   b '') = ''a b''\<close>
proof -
  have e: \<open>extract_and_evaluate_first ''Answer: [1, 2] {x}'' = Inr ''[1, 2]''\<close>
    by (simp add: sanitizer_eval)
  have c: \<open>collapse_spaces ''  a   b '' = ''a b''\<close>
    by (simp add: sanitizer_eval)
  from sanitizer_steps_idempotent [of \<open>''Answer: [1, 2] {x}''\<close>] e
  have 1: \<open>extract_and_evaluate_first ''[1, 2]'' = Inr ''[1, 2]''\<close> by blast
  from sanitizer_steps_idempotent [of \<open>''  a   b ''\<close>] c
  have 2: \<open>collapse_spaces (collapse_spaces ''  a   b '') = ''a b''\<close> by simp
  from e c 1 2 show ?thesis by simp
qed

subsection \<open>C7: references that do not resolve\<close>




subsection \<open>C8: the two parse attempts\<close>

text \<open>
  Claim C8 says: for every sanitized string decoded in extraction mode, the decoder first
  attempts a Python-literal parse, then, only if that fails, a strict JSON parse, both on
  the same unmodified sanitized string; if both fail it logs the failure and returns the
  empty default of the expected shape (\<^verbatim>\<open>{}\<close> for the object-shaped answers of the ACAPS
  module, \<^verbatim>\<open>[]\<close> for the list-shaped ones of the OHCHR module) without raising.

  The theorem holds for arbitrary parsers. Once the sanitizer has returned \<open>s\<close>, the call
  returns a value; the recorded parser calls are one call of \<^verbatim>\<open>literal_eval\<close> on \<open>s\<close> when it
  succeeds, and otherwise that call followed by one call of \<^verbatim>\<open>json.loads\<close> on the same \<open>s\<close>;
  \<^verbatim>\<open>logger.error\<close> is called exactly when both fail.
\<close>

theorem decode_fallback_chain:
  "(response_content clean_response = Inr (PStr t) \<and> acaps_postprocess_json_string t = Inr s \<longrightarrow>
      acaps_call_chatgpt_async literal_eval json_loads (Body clean_response) =
        \<lparr>outcome = Inr (case literal_eval s of
                          Some v \<Rightarrow> v
                        | None \<Rightarrow> (case json_loads s of Some v \<Rightarrow> v | None \<Rightarrow> PDict [])),
         parser_calls = (if literal_eval s = None then [(Literal_eval, s), (Json_loads, s)]
                         else [(Literal_eval, s)]),
         log = (if literal_eval s = None \<and> json_loads s = None then [Formatting_failed s]
                else [])\<rparr>)
   \<and> (response_content clean_response = Inr (PStr t) \<and> ohchr_postprocess_json_string t = Inr s'
      \<longrightarrow>
      ohchr_call_chatgpt_async literal_eval json_loads Extraction (Body clean_response) =
        \<lparr>outcome = Inr (case literal_eval s' of
                          Some v \<Rightarrow> v
                        | None \<Rightarrow> (case json_loads s' of Some v \<Rightarrow> v | None \<Rightarrow> PList [])),
         parser_calls = (if literal_eval s' = None then [(Literal_eval, s'), (Json_loads, s')]
                         else [(Literal_eval, s')]),
         log = (if literal_eval s' = None \<and> json_loads s' = None then [Formatting_failed s']
                else [])\<rparr>)"
  using acaps_call_decodes [of clean_response t s literal_eval json_loads]
    ohchr_call_decodes [of clean_response t s' literal_eval json_loads]
  by blast

theorem decode_fallback_chain_witness:
  \<open>acaps_call_chatgpt_async literal_eval_fragment json_loads_fragment
      (completion (PStr ''```json {"Text": "summary", "ID": [0]} ```'')) =
     \<lparr>outcome = Inr (PDict [(PStr ''Text'', PStr ''summary''), (PStr ''ID'', PList [PInt 0])]),
      parser_calls = [(Literal_eval, ''{"Text": "summary", "ID": [0]}'')],
      log = []\<rparr>
   \<and> acaps_call_chatgpt_async literal_eval_fragment json_loads_fragment
      (completion (PStr ''The answer is {"Text": }'')) =
     \<lparr>outcome = Inr (PDict []),
      parser_calls = [(Literal_eval, ''{"Text": }''),
                      (Json_loads, ''{"Text": }'')],
      log = [Formatting_failed ''{"Text": }'']\<rparr>
   \<and> ohchr_call_chatgpt_async literal_eval_fragment json_loads_fragment Extraction
      (completion (PStr ''Relevant: [0, 2,, 5]'')) =
     \<lparr>outcome = Inr (PList []),
      parser_calls = [(Literal_eval, ''[0, 2,, 5]''), (Json_loads, ''[0, 2,, 5]'')],
      log = [Formatting_failed ''[0, 2,, 5]'']\<rparr>\<close>
proof -
  have rc: "response_content (PDict [(PStr ''choices'',
              PList [PDict [(PStr ''message'', PDict [(PStr ''content'', PStr t)])]])])
            = Inr (PStr t)" for t
    by (simp add: response_content_def list_getitem_def)
  have s1: \<open>acaps_postprocess_json_string ''```json {"Text": "summary", "ID": [0]} ```''
             = Inr ''{"Text": "summary", "ID": [0]}''\<close>
    by (simp add: sanitizer_eval)
  have p1: \<open>literal_eval_fragment ''{"Text": "summary", "ID": [0]}''
             = Some (PDict [(PStr ''Text'', PStr ''summary''), (PStr ''ID'', PList [PInt 0])])\<close>
    by (simp add: parser_eval)
  have s2: \<open>acaps_postprocess_json_string ''The answer is {"Text": }''
             = Inr ''{"Text": }''\<close>
    by (simp add: sanitizer_eval)
  have p2: \<open>literal_eval_fragment ''{"Text": }'' = None
           \<and> json_loads_fragment ''{"Text": }'' = None\<close>
    by (simp add: parser_eval)
  have s3: \<open>ohchr_postprocess_json_string ''Relevant: [0, 2,, 5]'' = Inr ''[0, 2,, 5]''\<close>
    by (simp add: sanitizer_eval)
  have p3: \<open>literal_eval_fragment ''[0, 2,, 5]'' = None
           \<and> json_loads_fragment ''[0, 2,, 5]'' = None\<close>
    by (simp add: parser_eval)
  from decode_fallback_chain [of _ \<open>''```json {"Text": "summary", "ID": [0]} ```''\<close>
         \<open>''{"Text": "summary", "ID": [0]}''\<close> literal_eval_fragment json_loads_fragment]
    rc s1 p1
  have 1: \<open>acaps_call_chatgpt_async literal_eval_fragment json_loads_fragment
      (completion (PStr ''```json {"Text": "summary", "ID": [0]} ```'')) =
     \<lparr>outcome = Inr (PDict [(PStr ''Text'', PStr ''summary''), (PStr ''ID'', PList [PInt 0])]),
      parser_calls = [(Literal_eval, ''{"Text": "summary", "ID": [0]}'')],
      log = []\<rparr>\<close>
    unfolding completion_def by simp
  from decode_fallback_chain [of _ \<open>''The answer is {"Text": }''\<close>
         \<open>''{"Text": }''\<close> literal_eval_fragment json_loads_fragment]
    rc s2 p2
  have 2: \<open>acaps_call_chatgpt_async literal_eval_fragment json_loads_fragment
      (completion (PStr ''The answer is {"Text": }'')) =
     \<lparr>outcome = Inr (PDict []),
      parser_calls = [(Literal_eval, ''{"Text": }''),
                      (Json_loads, ''{"Text": }'')],
      log = [Formatting_failed ''{"Text": }'']\<rparr>\<close>
    unfolding completion_def by simp
  from decode_fallback_chain [of _ \<open>''Relevant: [0, 2,, 5]''\<close> _
         literal_eval_fragment json_loads_fragment \<open>''[0, 2,, 5]''\<close>]
    rc s3 p3
  have 3: \<open>ohchr_call_chatgpt_async literal_eval_fragment json_loads_fragment Extraction
      (completion (PStr ''Relevant: [0, 2,, 5]'')) =
     \<lparr>outcome = Inr (PList []),
      parser_calls = [(Literal_eval, ''[0, 2,, 5]''), (Json_loads, ''[0, 2,, 5]'')],
      log = [Formatting_failed ''[0, 2,, 5]'']\<rparr>\<close>
    unfolding completion_def by simp
  from 1 2 3 show ?thesis by simp
qed

subsection \<open>C9: comma insertion on a valid answer\<close>

text \<open>
  Claim C9 says: for some syntactically valid model output, for example the JSON text
  \<^verbatim>\<open>{"Text": "", "ID": []}\<close>, the comma insertion of the ACAPS sanitizer rewrites a pair of
  double quotes separated only by (possibly empty) white space into the pair followed by a
  comma, so that the empty string \<^verbatim>\<open>""\<close> becomes \<^verbatim>\<open>"",\<close>; the resulting text parses under
  neither attempt, and the pipeline returns the empty default \<^verbatim>\<open>{}\<close> instead of the object
  that the raw answer encoded.

  The theorem gives the rewriting law of the step, the value that both parsers assign to
  the raw answer, the sanitized text with its doubled comma, its rejection by both
  parsers, and the result \<^verbatim>\<open>{}\<close> of the call for any pair of parsers that reject that text.
\<close>

theorem comma_insertion_breaks_valid_json:
  \<open>(\<forall>ws rest. list_all is_space ws \<longrightarrow>
       add_comma_between_quotes (CHR 0x22 # ws @ CHR 0x22 # rest)
         = CHR 0x22 # ws @ [CHR 0x22, CHR '',''] @ add_comma_between_quotes rest)
   \<and> parse_fragment Python ''{"Text": "", "ID": []}''
       = Value (PDict [(PStr ''Text'', PStr []), (PStr ''ID'', PList [])])
   \<and> parse_fragment Json ''{"Text": "", "ID": []}''
       = Value (PDict [(PStr ''Text'', PStr []), (PStr ''ID'', PList [])])
   \<and> add_comma_between_quotes ''{"Text": "", "ID": []}'' = ''{"Text": "",, "ID": []}''
   \<and> acaps_postprocess_json_string ''{"Text": "", "ID": []}'' = Inr ''{"Text": "",, "ID": []}''
   \<and> parse_fragment Python ''{"Text": "",, "ID": []}'' = Raises
   \<and> parse_fragment Json ''{"Text": "",, "ID": []}'' = Raises
   \<and> (\<forall>literal_eval json_loads.
         literal_eval ''{"Text": "",, "ID": []}'' = None \<and>
         json_loads ''{"Text": "",, "ID": []}'' = None \<longrightarrow>
         outcome (acaps_call_chatgpt_async literal_eval json_loads
                    (completion (PStr ''{"Text": "", "ID": []}'')))
           = Inr (PDict []))\<close>
proof -
  have s: \<open>acaps_postprocess_json_string ''{"Text": "", "ID": []}'' = Inr ''{"Text": "",, "ID": []}''\<close>
    by (simp add: sanitizer_eval)
  have a: \<open>add_comma_between_quotes ''{"Text": "", "ID": []}'' = ''{"Text": "",, "ID": []}''\<close>
    by (simp add: is_space_def)
  have p: \<open>parse_fragment Python ''{"Text": "", "ID": []}''
       = Value (PDict [(PStr ''Text'', PStr []), (PStr ''ID'', PList [])])
   \<and> parse_fragment Json ''{"Text": "", "ID": []}''
       = Value (PDict [(PStr ''Text'', PStr []), (PStr ''ID'', PList [])])
   \<and> parse_fragment Python ''{"Text": "",, "ID": []}'' = Raises
   \<and> parse_fragment Json ''{"Text": "",, "ID": []}'' = Raises\<close>
    by (simp add: parser_eval)
  have c: \<open>outcome (acaps_call_chatgpt_async literal_eval json_loads
                    (completion (PStr ''{"Text": "", "ID": []}''))) = Inr (PDict [])\<close>
    if \<open>literal_eval ''{"Text": "",, "ID": []}'' = None\<close>
      and \<open>json_loads ''{"Text": "",, "ID": []}'' = None\<close> for literal_eval json_loads
  proof -
    have rc: \<open>response_content (PDict [(PStr ''choices'',
                   PList [PDict [(PStr ''message'', PDict [(PStr ''content'',
                      PStr ''{"Text": "", "ID": []}'')])]])]) = Inr (PStr ''{"Text": "", "ID": []}'')\<close>
      by (simp add: response_content_def list_getitem_def)
    show ?thesis
      unfolding completion_def acaps_call_decodes [OF rc s] using that by simp
  qed
  from s a p c add_comma_pair show ?thesis by blast
qed

theorem comma_insertion_breaks_valid_json_witness:
  \<open>add_comma_between_quotes ''"a"  "b"'' = ''"a"  ",b"''
   \<and> literal_eval_fragment ''{"Text": "",, "ID": []}'' = None
   \<and> json_loads_fragment ''{"Text": "",, "ID": []}'' = None
   \<and> outcome (acaps_call_chatgpt_async literal_eval_fragment json_loads_fragment
                (completion (PStr ''{"Text": "", "ID": []}''))) = Inr (PDict [])\<close>
proof -
  note th = comma_insertion_breaks_valid_json
  have sp: \<open>list_all is_space ''  ''\<close> by (simp add: is_space_def)
  from th sp have \<open>add_comma_between_quotes (CHR 0x22 # ''  '' @ CHR 0x22 # ''b"'')
         = CHR 0x22 # ''  '' @ [CHR 0x22, CHR '',''] @ add_comma_between_quotes ''b"''\<close>
    by blast
  then have 1: \<open>add_comma_between_quotes ''"a"  "b"'' = ''"a"  ",b"''\<close>
    by (simp add: is_space_def)
  from th have l: \<open>literal_eval_fragment ''{"Text": "",, "ID": []}'' = None\<close>
    and j: \<open>json_loads_fragment ''{"Text": "",, "ID": []}'' = None\<close>
    by (simp_all add: literal_eval_fragment_def json_loads_fragment_def as_parser_def)
  from th l j have \<open>outcome (acaps_call_chatgpt_async literal_eval_fragment json_loads_fragment
                (completion (PStr ''{"Text": "", "ID": []}''))) = Inr (PDict [])\<close>
    by blast
  with 1 l j show ?thesis by simp
qed

subsection \<open>C10: negative references\<close>

text \<open>
  Claim C10 says: for every decoded extraction list containing a negative integer \<open>-m\<close> with
  \<open>m\<close> no greater than the length of the slot's evidence list, both joiners resolve the
  reference by Python's negative indexing to the \<open>m\<close>-th evidence item from the end and emit
  it as supporting evidence, rather than rejecting or dropping it.

  As stated, for every such list, this fails: the list \<^verbatim>\<open>[-1, 99]\<close> against two evidence items
  contains \<open>-1\<close>, but the reference 99 raises \<^verbatim>\<open>IndexError\<close> and nothing is emitted, neither by
  the loop over the references nor by either joiner.
\<close>

theorem negative_reference_not_emitted:
  "resolve_refs py_int [''A'', ''B''] [PInt (- 1), PInt 99] = Inl IndexError
   \<and> resolve_refs list_index [''A'', ''B''] [PInt (- 1), PInt 99] = Inl IndexError
   \<and> extracted_infos [[''A'', ''B'']] 0 [PList [PInt (- 1), PInt 99]] = Inl IndexError
   \<and> get_final_results
        [sample_row ''Indicator'' ''Country Wide'' [sample_entry ''A'', sample_entry ''B'']]
        [PDict [(PStr ''Text'', PStr ''summary''), (PStr ''ID'', PList [PInt (- 1), PInt 99])]]
       = Inl IndexError"
  by (simp add: list_getitem_def get_final_results_def sample_row_def)

text \<open>
  Claim C10 as amended: in every batch all of whose references resolve (each is an integer
  \<open>i\<close> with \<open>-n \<le> i < n\<close> for the \<open>n\<close> evidence items of its slot; for the ACAPS joiner each
  answer is the empty default or a dictionary with \<^verbatim>\<open>Text\<close> and at least one \<^verbatim>\<open>ID\<close>, and not all
  answers are empty) both joiners return; and in every run of a joiner that returns, a
  negative reference \<open>-m\<close> with \<open>1 \<le> m \<le> n\<close> is resolved by negative indexing to the \<open>m\<close>-th
  evidence item from the end and emitted at the position of the reference, neither
  rejected nor dropped. A list that holds \<open>-m\<close> next to a reference that does not resolve
  raises, and nothing is emitted.

  The theorem has six parts: the subscript itself; the loop over the references of one
  slot; for each joiner, that it returns on a batch whose references resolve, and that a
  returned result holds the item at the position of the reference.
\<close>

theorem negative_reference_resolved:
  fixes es :: "'e list" and rows :: "'e list list" and df :: "entry df_row list"
  shows
  "(1 \<le> m \<and> m \<le> length es \<longrightarrow> list_getitem es (- int m) = Inr (es ! (length es - m)))
   \<and> (list_all (in_range es) ids \<and> j < length ids \<and> ids ! j = PInt (- int m) \<and> 1 \<le> m \<longrightarrow>
      (\<exists>out. resolve_refs py_int es ids = Inr out
           \<and> resolve_refs list_index es ids = Inr out
           \<and> length out = length ids \<and> out ! j = es ! (length es - m)))
   \<and> (length rows \<le> length answers
        \<and> (\<forall>k < length rows. list_resolves (rows ! k) (answers ! k)) \<longrightarrow>
      (\<exists>out. extracted_infos rows 0 answers = Inr out))
   \<and> (extracted_infos rows 0 answers = Inr out \<and> k < length rows
        \<and> answers ! k = PList ids \<and> j < length ids \<and> ids ! j = PInt (- int m)
        \<and> 1 \<le> m \<and> m \<le> length (rows ! k) \<longrightarrow>
      length (out ! k) = length ids \<and> out ! k ! j = rows ! k ! (length (rows ! k) - m))
   \<and> ((\<forall>k < length stmts. k < length df
           \<and> (stmts ! k = PDict [] \<or> statement_resolves (df ! k) (stmts ! k)))
        \<and> (\<exists>k < length stmts. stmts ! k \<noteq> PDict []) \<longrightarrow>
      (\<exists>frame. get_final_results df stmts = Inr frame))
   \<and> (get_final_results df stmts = Inr frame \<and> k < length stmts
        \<and> stmts ! k = PDict kvs \<and> py_getitem (PDict kvs) (PStr ''ID'') = Inr (PList ids)
        \<and> j < length ids \<and> ids ! j = PInt (- int m)
        \<and> 1 \<le> m \<and> m \<le> length (entries (df ! k)) \<longrightarrow>
      (\<exists>row \<in> set frame. Country row = country (df ! k)
           \<and> Evidence row = entries (df ! k) ! (length (entries (df ! k)) - m)
           \<and> Source_Original_Text row
               = str_replace [CHR 0x0A] '' ''
                   (entry_text (entries (df ! k) ! (length (entries (df ! k)) - m)))))"
proof -
  have at: "length outk = length ids \<and> outk ! j = xs ! (length xs - m)"
    if r: "resolve_refs conv xs ids = Inr outk" and c: "conv (PInt (- int m)) = Inr (- int m)"
      and j: "j < length ids" and i: "ids ! j = PInt (- int m)"
      and m: "1 \<le> m" "m \<le> length xs" for conv outk and xs :: "'x list"
  proof -
    from resolve_refs_inv [OF r] j obtain i' where l: "length outk = length ids"
      and "conv (ids ! j) = Inr i'" and "list_getitem xs i' = Inr (outk ! j)" by blast
    with i c list_getitem_negative [OF m] show ?thesis by simp
  qed
  have slot: "\<exists>out. resolve_refs py_int es ids = Inr out
           \<and> resolve_refs list_index es ids = Inr out
           \<and> length out = length ids \<and> out ! j = es ! (length es - m)"
    if ok: "list_all (in_range es) ids" and j: "j < length ids"
      and i: "ids ! j = PInt (- int m)" and m: "1 \<le> m"
  proof -
    from ok j have "in_range es (ids ! j)" by (simp add: list_all_length)
    with i m have le: "m \<le> length es" by (simp add: in_range_def)
    from resolve_refs_resolves [OF _ ok, of py_int] obtain out1 where
      1: "resolve_refs py_int es ids = Inr out1" by auto
    from resolve_refs_resolves [OF _ ok, of list_index] obtain out2 where
      2: "resolve_refs list_index es ids = Inr out2" by auto
    have "out1 = out2"
    proof (rule nth_equalityI)
      from resolve_refs_inv [OF 1] resolve_refs_inv [OF 2]
      show "length out1 = length out2" by simp
    next
      fix n assume n: "n < length out1"
      with resolve_refs_inv [OF 1] have n': "n < length ids" by simp
      with ok have "in_range es (ids ! n)" by (simp add: list_all_length)
      then obtain i' where p: "ids ! n = PInt i'" by (cases "ids ! n") (auto simp: in_range_def)
      from resolve_refs_inv [OF 1] n' p have "list_getitem es i' = Inr (out1 ! n)" by auto
      moreover from resolve_refs_inv [OF 2] n' p have "list_getitem es i' = Inr (out2 ! n)"
        by auto
      ultimately show "out1 ! n = out2 ! n" by simp
    qed
    with 1 2 at [OF 1 _ j i m le] show ?thesis by simp
  qed
  have ohchr_returns: "\<exists>out. extracted_infos rows 0 answers = Inr out"
    if "length rows \<le> length answers"
      and "\<forall>k < length rows. list_resolves (rows ! k) (answers ! k)"
    using extracted_infos_resolves [of 0 rows answers] that by simp
  have ohchr: "length (out ! k) = length ids
                 \<and> out ! k ! j = rows ! k ! (length (rows ! k) - m)"
    if o: "extracted_infos rows 0 answers = Inr out" and k: "k < length rows"
      and a: "answers ! k = PList ids" and j: "j < length ids" and i: "ids ! j = PInt (- int m)"
      and m: "1 \<le> m" "m \<le> length (rows ! k)"
  proof -
    from extracted_infos_inv [OF o] k obtain answer ids' where
      g: "list_getitem answers (int (0 + k)) = Inr answer" and it: "py_iter answer = Inr ids'"
      and r: "resolve_refs list_index (rows ! k) ids' = Inr (out ! k)" by blast
    from g have "answer = answers ! k" using list_getitem_Inr [of answers k answer] by simp
    with a it have "ids' = ids" by simp
    with r have "resolve_refs list_index (rows ! k) ids = Inr (out ! k)" by simp
    from at [OF this _ j i m] show ?thesis by simp
  qed
  have acaps_returns: "\<exists>frame. get_final_results df stmts = Inr frame"
    if "\<forall>k < length stmts. k < length df
           \<and> (stmts ! k = PDict [] \<or> statement_resolves (df ! k) (stmts ! k))"
      and "\<exists>k < length stmts. stmts ! k \<noteq> PDict []"
    using that by (rule get_final_results_resolves)
  have acaps: "\<exists>row \<in> set frame. Country row = country (df ! k)
           \<and> Evidence row = entries (df ! k) ! (length (entries (df ! k)) - m)
           \<and> Source_Original_Text row
               = str_replace [CHR 0x0A] '' ''
                   (entry_text (entries (df ! k) ! (length (entries (df ! k)) - m)))"
    if o: "get_final_results df stmts = Inr frame" and k: "k < length stmts"
      and s: "stmts ! k = PDict kvs"
      and idk: "py_getitem (PDict kvs) (PStr ''ID'') = Inr (PList ids)"
      and j: "j < length ids" and i: "ids ! j = PInt (- int m)"
      and m: "1 \<le> m" "m \<le> length (entries (df ! k))"
  proof -
    from get_final_results_Inr [OF o] obtain loop_rows where
      loop: "postprocessed_results df 0 stmts = Inr loop_rows"
      and emitted: "\<forall>r \<in> set loop_rows. \<forall>e \<in> set (Evidence r).
                 \<exists>row \<in> set frame. Country row = Country r
                    \<and> Generated_Text row = Generated_Text r \<and> Evidence row = e
                    \<and> Source_Original_Text row = str_replace [CHR 0x0A] '' '' (entry_text e)"
      by blast
    have len: "py_len (stmts ! k) = Inr (length kvs)" using s by simp
    have pos: "0 < length kvs" using idk by (rule py_getitem_dict_nonempty)
    from postprocessed_results_inv [OF loop k len pos] obtain gtext ids0 id_list ev where
      "py_getitem (stmts ! k) (PStr ''ID'') = Inr ids0" "py_iter ids0 = Inr id_list"
      and r: "resolve_refs py_int (entries (df ! (0 + k))) id_list = Inr ev"
      and mem: "\<lparr>Country = country (df ! (0 + k)),
               Breakdown_Column = breakdown_column (df ! (0 + k)),
               Value_col = value_col (df ! (0 + k)),
               Last_Date = last_date (df ! (0 + k)),
               Generated_Text = gtext,
               Evidence = ev\<rparr> \<in> set loop_rows" by blast
    with s idk have "id_list = ids" by auto
    with r have "resolve_refs py_int (entries (df ! k)) ids = Inr ev" by simp
    from at [OF this _ j i m] have l: "length ev = length ids"
      and e: "ev ! j = entries (df ! k) ! (length (entries (df ! k)) - m)" by simp_all
    from l j have "ev ! j \<in> set ev" by simp
    with emitted mem obtain row where "row \<in> set frame" "Country row = country (df ! k)"
      "Evidence row = ev ! j"
      "Source_Original_Text row = str_replace [CHR 0x0A] '' '' (entry_text (ev ! j))"
      by fastforce
    with e show ?thesis by auto
  qed
  from list_getitem_negative [of m es] slot ohchr_returns ohchr acaps_returns acaps
  show ?thesis by blast
qed

text \<open>A batch of one slot with three evidence items and the references 0 and \<open>-1\<close>: both
  joiners return, and the last item is emitted for \<open>-1\<close>.\<close>

theorem negative_reference_resolved_witness:
  "list_getitem [''A'', ''B'', ''C''] (- 1) = Inr ''C''
   \<and> resolve_refs py_int [''A'', ''B'', ''C''] [PInt 0, PInt (- 1)] = Inr [''A'', ''C'']
   \<and> resolve_refs list_index [''A'', ''B'', ''C''] [PInt 0, PInt (- 1)] = Inr [''A'', ''C'']
   \<and> extracted_infos [[''A'', ''B'', ''C'']] 0 [PList [PInt 0, PInt (- 1)]] = Inr [[''A'', ''C'']]
   \<and> list_resolves [''A'', ''B'', ''C''] (PList [PInt 0, PInt (- 1)])
   \<and> statement_resolves
        (sample_row ''Indicator'' ''Ouest''
           [sample_entry ''A'', sample_entry ''B'', sample_entry ''C''])
        (PDict [(PStr ''Text'', PStr ''summary''), (PStr ''ID'', PList [PInt 0, PInt (- 1)])])
   \<and> map Evidence (projr (get_final_results
        [sample_row ''Indicator'' ''Ouest''
           [sample_entry ''A'', sample_entry ''B'', sample_entry ''C'']]
        [PDict [(PStr ''Text'', PStr ''summary''), (PStr ''ID'', PList [PInt 0, PInt (- 1)])]]))
       = [sample_entry ''A'', sample_entry ''C'']
   \<and> \<not> isl (get_final_results
        [sample_row ''Indicator'' ''Ouest''
           [sample_entry ''A'', sample_entry ''B'', sample_entry ''C'']]
        [PDict [(PStr ''Text'', PStr ''summary''), (PStr ''ID'', PList [PInt 0, PInt (- 1)])]])"
proof -
  let ?es = "[''A'', ''B'', ''C'']"
  let ?ids = "[PInt 0, PInt (- 1)]"
  let ?df = "[sample_row ''Indicator'' ''Ouest''
                [sample_entry ''A'', sample_entry ''B'', sample_entry ''C'']]"
  let ?kvs = "[(PStr ''Text'', PStr ''summary''), (PStr ''ID'', PList ?ids)]"
  note th = negative_reference_resolved
              [of 1 ?es ?ids 1 "[?es]" "[PList ?ids]" _ 0 "[PDict ?kvs]" ?df _ ?kvs]
  have m: "(1::nat) \<le> 1 \<and> 1 \<le> length ?es" by simp
  from th m have "list_getitem ?es (- int 1) = Inr (?es ! (length ?es - 1))" by blast
  then have 1: "list_getitem ?es (- 1) = Inr ''C''" by simp
  have h2: "list_all (in_range ?es) ?ids \<and> 1 < length ?ids \<and> ?ids ! 1 = PInt (- int 1)
              \<and> (1::nat) \<le> 1"
    by (simp add: in_range_def)
  from th h2 obtain out where p: "resolve_refs py_int ?es ?ids = Inr out"
    and l: "resolve_refs list_index ?es ?ids = Inr out" by blast
  have "resolve_refs py_int ?es ?ids = Inr [''A'', ''C'']" by (simp add: list_getitem_def)
  with p have "out = [''A'', ''C'']" by simp
  with p l have 2: "resolve_refs py_int ?es ?ids = Inr [''A'', ''C'']"
    and 3: "resolve_refs list_index ?es ?ids = Inr [''A'', ''C'']" by simp_all
  have 4: "extracted_infos [?es] 0 [PList ?ids] = Inr [[''A'', ''C'']]"
    using 3 by (simp add: list_getitem_def)
  have 5: "list_resolves ?es (PList ?ids)" by (simp add: list_resolves_def in_range_def)
  have 6: "statement_resolves (sample_row ''Indicator'' ''Ouest''
             [sample_entry ''A'', sample_entry ''B'', sample_entry ''C'']) (PDict ?kvs)"
    by (simp add: statement_resolves_def list_resolves_def in_range_def sample_row_def)
  have h7: "(\<forall>k < length [PDict ?kvs]. k < length ?df
           \<and> ([PDict ?kvs] ! k = PDict [] \<or> statement_resolves (?df ! k) ([PDict ?kvs] ! k)))
        \<and> (\<exists>k < length [PDict ?kvs]. [PDict ?kvs] ! k \<noteq> PDict [])"
    using 6 by simp
  from th h7 obtain frame where "get_final_results ?df [PDict ?kvs] = Inr frame" by blast
  then have 8: "\<not> isl (get_final_results ?df [PDict ?kvs])" by simp
  have 7: "map Evidence (projr (get_final_results ?df [PDict ?kvs]))
             = [sample_entry ''A'', sample_entry ''C'']"
    using 2 by (simp add: get_final_results_def sample_row_def explode_def source_columns_def
                  list_getitem_def general_summary_labels_def Let_def)
  from 1 2 3 4 5 6 7 8 show ?thesis by simp
qed

end
